(* ===== verification/Prelude.thy ===== *)
theory Prelude imports Main "HOL-Library.Word" "HOL-Library.Sublist" begin

text \<open>
  The prelude of the development: the machine types of the Go program, the error values
  every fallible operation returns, and the list and word lemmas the components share.

  A Go \<open>string\<close> is a sequence of bytes and is modelled by Isabelle's \<open>string\<close> (a list of
  8-bit characters). A \<open>[]byte\<close> of audio data is a \<open>u8 list\<close>. A \<open>time.Duration\<close> is a signed
  64-bit count of nanoseconds, kept as a \<open>64 word\<close> and read with \<^const>\<open>sint\<close>, because the
  backoff code guards against its overflow.
\<close>

section \<open>Machine types\<close>

type_synonym u8 = "8 word"
type_synonym u16 = "16 word"
type_synonym u32 = "32 word"
type_synonym u64 = "64 word"
type_synonym i64 = "64 word"
type_synonym duration = "64 word"

abbreviation (input) nanosecond :: duration where "nanosecond \<equiv> 1"
abbreviation (input) millisecond :: duration where "millisecond \<equiv> 1000000"
abbreviation (input) second :: duration where "second \<equiv> 1000000000"
abbreviation (input) minute :: duration where "minute \<equiv> 60000000000"

section \<open>Error values\<close>

text \<open>
  A Go \<open>error\<close> is \<open>nil\<close> or a value that may wrap another (\<open>fmt.Errorf\<close> with \<open>%w\<close>). The
  constructors are the kinds of error the program tells apart: an exit status of a
  subprocess (\<open>*exec.ExitError\<close>), cancellation of a context, a sentinel variable of the
  program, and every other error with its text.
\<close>

datatype goerr =
    ErrText string
  | ErrSentinel string
  | ErrExit int
  | ErrCanceled
  | ErrWrap string goerr

type_synonym goerror = "goerr option"

abbreviation (input) nil_err :: goerror where "nil_err \<equiv> None"

text \<open>\<open>errors.Is\<close> follows the chain of wrapped errors, comparing each with the target.\<close>

fun errors_Is :: "goerr \<Rightarrow> goerr \<Rightarrow> bool" where
  "errors_Is (ErrWrap m e) t = (ErrWrap m e = t \<or> errors_Is e t)"
| "errors_Is e t = (e = t)"

text \<open>\<open>errors.As\<close> with an \<open>*exec.ExitError\<close> target: the first exit error of the chain.\<close>

fun errors_As_exit :: "goerr \<Rightarrow> int option" where
  "errors_As_exit (ErrExit c) = Some c"
| "errors_As_exit (ErrWrap m e) = errors_As_exit e"
| "errors_As_exit e = None"

text \<open>A Go function that returns a value and an error: the error is \<open>Inl\<close>.\<close>

type_synonym 'a result = "goerr + 'a"

section \<open>Collections of facts\<close>

text \<open>
  \<open>eval_simps\<close> unfolds the small definitions of a component (defaults, guards, constants);
  \<open>inv_intros\<close> collects the preservation lemmas of the state invariants.
\<close>

named_theorems eval_simps
named_theorems inv_intros

section \<open>Little-endian integers\<close>

text \<open>\<open>put_le n w\<close> is what \<open>encoding/binary\<close> stores for the low \<open>n\<close> bytes of \<open>w\<close>.\<close>

fun put_le :: "nat \<Rightarrow> nat \<Rightarrow> u8 list" where
  "put_le 0 v = []"
| "put_le (Suc n) v = word_of_nat v # put_le n (v div 256)"

fun get_le :: "u8 list \<Rightarrow> nat" where
  "get_le [] = 0"
| "get_le (b # bs) = unat b + 256 * get_le bs"

lemma length_put_le [simp]: "length (put_le n v) = n"
  by (induction n arbitrary: v) auto

lemma unat_u8_of_nat [simp]: "unat (word_of_nat v :: u8) = v mod 256"
  by (simp add: unat_of_nat)

lemma get_put_le: "get_le (put_le n v) = v mod 256 ^ n"
proof (induction n arbitrary: v)
  case 0
  then show ?case by simp
next
  case (Suc n)
  have "get_le (put_le (Suc n) v) = v mod 256 + 256 * (v div 256 mod 256 ^ n)"
    by (simp add: Suc.IH)
  also have "\<dots> = v mod (256 * 256 ^ n)"
    by (simp add: mod_mult2_eq)
  finally show ?case by simp
qed

lemma get_put_le_bounded: "v < 256 ^ n \<Longrightarrow> get_le (put_le n v) = v"
  by (simp add: get_put_le)

section \<open>Lists\<close>

lemma nth_update: "i < length xs \<Longrightarrow> xs[j := y] ! i = (if i = j then y else xs ! i)"
  by (cases "i = j") simp_all

lemma take_drop_sum: "take n xs @ take m (drop n xs) = take (n + m) xs"
  by (simp add: take_add)

lemma rev_prefix_drop: "prefix (rev r) s \<Longrightarrow> length (drop (length r) s) = length s - length r"
  by simp

lemma concat_snoc [simp]: "concat (xss @ [xs]) = concat xss @ xs"
  by simp

lemma foldl_append_fst:
  "(\<And>a x. f (pre @ a) x = pre @ f a x) \<Longrightarrow> foldl f (pre @ a) xs = pre @ foldl f a xs"
  by (induction xs arbitrary: a) auto

lemma subseq_append_right: "subseq xs ys \<Longrightarrow> subseq xs (ys @ zs)"
  by (metis append_Nil2 list_emb_Nil list_emb_append_mono)

section \<open>Signed words\<close>

lemma sint_double_no_overflow:
  fixes w :: "64 word"
  assumes "- (2 ^ 62) \<le> sint w" and "sint w < 2 ^ 62"
  shows "sint (w * 2) = 2 * sint w"
proof -
  have "sint (w * 2) = signed_take_bit 63 (sint w * 2)"
    by (simp add: sint_word_mult)
  also have "\<dots> = sint w * 2"
    using assms by (intro signed_take_bit_int_eq_self) auto
  finally show ?thesis by simp
qed

lemma sint_double_overflow:
  fixes w :: "64 word"
  assumes "2 ^ 62 \<le> sint w"
  shows "sint (w * 2) < 0"
proof -
  have lt: "sint w < 2 ^ 63" using sint_lt [of w] by simp
  have "sint (w * 2) = signed_take_bit 63 (sint w * 2)"
    by (simp add: sint_word_mult)
  also have "\<dots> = (sint w * 2 + 2 ^ 63) mod 2 ^ 64 - 2 ^ 63"
    by (simp add: signed_take_bit_eq_take_bit_shift take_bit_eq_mod)
  also have "(sint w * 2 + 2 ^ 63) mod 2 ^ 64 = sint w * 2 + 2 ^ 63 - 2 ^ 64"
  proof -
    have "(sint w * 2 + 2 ^ 63) mod 2 ^ 64 = (sint w * 2 + 2 ^ 63 - 2 ^ 64) mod 2 ^ 64"
      by (rule minus_mod_self2 [symmetric])
    also have "\<dots> = sint w * 2 + 2 ^ 63 - 2 ^ 64"
      using assms lt by (intro mod_pos_pos_trivial) auto
    finally show ?thesis .
  qed
  finally show ?thesis using lt by simp
qed

end
