(* ===== verification/GoStrings.thy ===== *)
theory GoStrings imports Prelude begin

text \<open>
  The functions of Go's \<open>strings\<close> and \<open>strconv\<close> packages that the program calls, on byte
  strings: \<open>TrimSpace\<close>, \<open>TrimRight\<close> with a cutset, \<open>HasPrefix\<close>, \<open>TrimPrefix\<close>, \<open>Split\<close>
  on one byte, \<open>Fields\<close>, \<open>ToLower\<close>, \<open>Atoi\<close> and \<open>Itoa\<close>, with the round trip of decimal
  numbers and the lemmas that evaluate them on symbolic text.
\<close>

section \<open>White space\<close>

text \<open>
  The UTF-8 encodings of the runes for which \<open>unicode.IsSpace\<close> holds. An encoding starts
  with a byte that is never a continuation byte, so reading runes from either end meets
  a space exactly where one of these byte sequences stands.
\<close>

definition space_runes :: "string list" where
  "space_runes =
    [[CHR 0x09], [CHR 0x0A], [CHR 0x0B], [CHR 0x0C], [CHR 0x0D], [CHR 0x20],
     [CHR 0xC2, CHR 0x85], [CHR 0xC2, CHR 0xA0], [CHR 0xE1, CHR 0x9A, CHR 0x80],
     [CHR 0xE2, CHR 0x80, CHR 0x80], [CHR 0xE2, CHR 0x80, CHR 0x81],
     [CHR 0xE2, CHR 0x80, CHR 0x82], [CHR 0xE2, CHR 0x80, CHR 0x83],
     [CHR 0xE2, CHR 0x80, CHR 0x84], [CHR 0xE2, CHR 0x80, CHR 0x85],
     [CHR 0xE2, CHR 0x80, CHR 0x86], [CHR 0xE2, CHR 0x80, CHR 0x87],
     [CHR 0xE2, CHR 0x80, CHR 0x88], [CHR 0xE2, CHR 0x80, CHR 0x89],
     [CHR 0xE2, CHR 0x80, CHR 0x8A], [CHR 0xE2, CHR 0x80, CHR 0xA8],
     [CHR 0xE2, CHR 0x80, CHR 0xA9], [CHR 0xE2, CHR 0x80, CHR 0xAF],
     [CHR 0xE2, CHR 0x81, CHR 0x9F], [CHR 0xE3, CHR 0x80, CHR 0x80]]"

definition drop_any :: "string list \<Rightarrow> string \<Rightarrow> string option" where
  "drop_any rs s =
    (case find (\<lambda>r. prefix r s) rs of None \<Rightarrow> None | Some r \<Rightarrow> Some (drop (length r) s))"

lemma find_Some_mem: "find P xs = Some x \<Longrightarrow> x \<in> set xs \<and> P x"
  by (induction xs) (auto split: if_splits)

lemma space_runes_nonempty: "r \<in> set space_runes \<Longrightarrow> r \<noteq> []"
  by (auto simp: space_runes_def)

lemma drop_any_shorter:
  assumes "drop_any rs s = Some t" and "\<And>r. r \<in> set rs \<Longrightarrow> r \<noteq> []"
  shows "length t < length s"
proof -
  from assms(1) obtain r where r: "find (\<lambda>r. prefix r s) rs = Some r" and t: "t = drop (length r) s"
    by (auto simp: drop_any_def split: option.splits)
  from find_Some_mem [OF r] have "r \<in> set rs" and "prefix r s" by auto
  then have "r \<noteq> []" and "length r \<le> length s"
    using assms(2) by (auto dest: prefix_length_le)
  then show ?thesis using t by (cases r; cases s) auto
qed

lemma drop_space_shorter: "drop_any space_runes s = Some t \<Longrightarrow> length t < length s"
  by (rule drop_any_shorter) (auto dest: space_runes_nonempty)

lemma drop_space_rev_shorter: "drop_any (map rev space_runes) s = Some t \<Longrightarrow> length t < length s"
  by (rule drop_any_shorter) (auto dest: space_runes_nonempty)

lemma drop_any_None: "(\<And>r. r \<in> set rs \<Longrightarrow> \<not> prefix r s) \<Longrightarrow> drop_any rs s = None"
  by (auto simp: drop_any_def find_None_iff split: option.splits)

lemma drop_space_Nil [simp]:
  "drop_any space_runes [] = None" "drop_any (map rev space_runes) [] = None"
  by (rule drop_any_None, auto dest: space_runes_nonempty)+

function TrimLeftSpace :: "string \<Rightarrow> string" where
  "TrimLeftSpace s =
    (case drop_any space_runes s of None \<Rightarrow> s | Some t \<Rightarrow> TrimLeftSpace t)"
  by pat_completeness auto
termination
  by (relation "measure length") (auto dest: drop_space_shorter)

function TrimRightRev :: "string \<Rightarrow> string" where
  "TrimRightRev s =
    (case drop_any (map rev space_runes) s of None \<Rightarrow> s | Some t \<Rightarrow> TrimRightRev t)"
  by pat_completeness auto
termination
  by (relation "measure length") (auto dest: drop_space_rev_shorter)

declare TrimLeftSpace.simps [simp del] TrimRightRev.simps [simp del]

definition TrimSpace :: "string \<Rightarrow> string" where
  "TrimSpace s = rev (TrimRightRev (rev (TrimLeftSpace s)))"

text \<open>A byte that neither starts nor ends a space rune.\<close>

definition solid :: "char \<Rightarrow> bool" where
  "solid c = (list_all (\<lambda>r. hd r \<noteq> c \<and> last r \<noteq> c) space_runes)"

lemma solid_hd: "solid c \<Longrightarrow> r \<in> set space_runes \<Longrightarrow> \<not> prefix r (c # s)"
  using space_runes_nonempty [of r] by (cases r) (auto simp: solid_def list_all_iff)

lemma solid_last: "solid c \<Longrightarrow> r \<in> set space_runes \<Longrightarrow> \<not> prefix (rev r) (c # s)"
  using space_runes_nonempty [of r]
  by (cases r rule: rev_cases) (auto simp: solid_def list_all_iff)

lemma drop_space_solid [simp]:
  assumes "solid c"
  shows "drop_any space_runes (c # s) = None" "drop_any (map rev space_runes) (c # s) = None"
  using solid_hd [OF assms] solid_last [OF assms] by (auto intro!: drop_any_None)

lemma TrimLeftSpace_solid [simp]: "solid c \<Longrightarrow> TrimLeftSpace (c # s) = c # s"
  by (subst TrimLeftSpace.simps) simp

lemma TrimRightRev_solid [simp]: "solid c \<Longrightarrow> TrimRightRev (c # s) = c # s"
  by (subst TrimRightRev.simps) simp

lemma TrimLeftSpace_Nil [simp]: "TrimLeftSpace [] = []"
  by (subst TrimLeftSpace.simps) simp

lemma TrimRightRev_Nil [simp]: "TrimRightRev [] = []"
  by (subst TrimRightRev.simps) simp

lemma TrimLeftSpace_blank [simp]: "TrimLeftSpace (CHR '' '' # s) = TrimLeftSpace s"
  by (subst TrimLeftSpace.simps) (simp add: drop_any_def space_runes_def)

text \<open>Text that starts and ends with solid bytes, after any one blank, is trimmed to itself.\<close>

lemma TrimSpace_solid:
  assumes "s \<noteq> []" "solid (hd s)" "solid (last s)"
  shows "TrimSpace s = s" and "TrimSpace (CHR '' '' # s) = s"
proof -
  have l: "TrimLeftSpace s = s" using assms by (cases s) auto
  obtain t c where "s = t @ [c]" using assms(1) by (cases s rule: rev_cases) auto
  then have r: "TrimRightRev (rev s) = rev s" using assms(3) by simp
  show "TrimSpace s = s" and "TrimSpace (CHR '' '' # s) = s"
    by (simp_all add: TrimSpace_def l r)
qed

lemma TrimSpace_Nil [simp]: "TrimSpace [] = []"
  by (simp add: TrimSpace_def)

section \<open>Prefixes, cutsets, splitting\<close>

definition HasPrefix :: "string \<Rightarrow> string \<Rightarrow> bool" where
  "HasPrefix s p = prefix p s"

definition TrimPrefix :: "string \<Rightarrow> string \<Rightarrow> string" where
  "TrimPrefix s p = (if HasPrefix s p then drop (length p) s else s)"

definition TrimRight :: "string \<Rightarrow> char \<Rightarrow> string" where
  "TrimRight s c = rev (dropWhile (\<lambda>x. x = c) (rev s))"

lemma HasPrefix_append [simp]: "HasPrefix (p @ s) p"
  by (simp add: HasPrefix_def)

lemma TrimPrefix_append [simp]: "TrimPrefix (p @ s) p = s"
  by (simp add: TrimPrefix_def)

lemma TrimRight_last: "TrimRight s c = [] \<or> last (TrimRight s c) \<noteq> c"
  using hd_dropWhile [of "\<lambda>x. x = c" "rev s"] by (auto simp: TrimRight_def last_rev)

fun SplitOn :: "char \<Rightarrow> string \<Rightarrow> string list" where
  "SplitOn d [] = [[]]"
| "SplitOn d (c # s) =
    (if c = d then [] # SplitOn d s
     else (case SplitOn d s of [] \<Rightarrow> [[c]] | w # ws \<Rightarrow> (c # w) # ws))"

lemma SplitOn_nonempty [simp]: "SplitOn d s \<noteq> []"
  by (induction s) (auto split: list.splits)

lemma SplitOn_sep:
  "d \<notin> set w \<Longrightarrow> SplitOn d (w @ d # s) = w # SplitOn d s"
  by (induction w) auto

lemma SplitOn_no_sep: "d \<notin> set w \<Longrightarrow> SplitOn d w = [w]"
  by (induction w) auto

function FieldsFrom :: "string \<Rightarrow> string \<Rightarrow> string list" where
  "FieldsFrom w [] = (if w = [] then [] else [w])"
| "FieldsFrom w (c # s) =
    (case drop_any space_runes (c # s) of
       Some t \<Rightarrow> (if w = [] then FieldsFrom [] t else w # FieldsFrom [] t)
     | None \<Rightarrow> FieldsFrom (w @ [c]) s)"
  by pat_completeness auto
termination
  by (relation "measure (\<lambda>(w, s). length s)")
    (auto dest!: drop_space_shorter)

definition Fields :: "string \<Rightarrow> string list" where
  "Fields s = FieldsFrom [] s"

lemma FieldsFrom_word:
  "list_all solid w \<Longrightarrow> FieldsFrom v (w @ s) = FieldsFrom (v @ w) s"
  by (induction w arbitrary: v) auto

lemma FieldsFrom_tab:
  "FieldsFrom v (CHR 0x09 # s) = (if v = [] then FieldsFrom [] s else v # FieldsFrom [] s)"
  by (simp add: drop_any_def space_runes_def)

text \<open>
  \<open>strings.ToLower\<close> on ASCII. The program compares the result with ASCII words only, and
  no rune outside ASCII has one of their letters as its lower case.
\<close>

definition lower_char :: "char \<Rightarrow> char" where
  "lower_char c =
    (let n = (of_char c :: nat) in if 65 \<le> n \<and> n \<le> 90 then char_of (n + 32) else c)"

definition ToLower :: "string \<Rightarrow> string" where
  "ToLower s = map lower_char s"

section \<open>Decimal numbers\<close>

definition digit_of :: "char \<Rightarrow> nat option" where
  "digit_of c = (let n = (of_char c :: nat) in if 48 \<le> n \<and> n \<le> 57 then Some (n - 48) else None)"

fun digits_value :: "nat \<Rightarrow> string \<Rightarrow> nat option" where
  "digits_value acc [] = Some acc"
| "digits_value acc (c # s) =
    (case digit_of c of None \<Rightarrow> None | Some d \<Rightarrow> digits_value (10 * acc + d) s)"

text \<open>\<open>strconv.Atoi\<close> on a 64-bit platform; a syntax or range error is \<open>None\<close>.\<close>

definition Atoi :: "string \<Rightarrow> int option" where
  "Atoi s =
    (let neg = (case s of [] \<Rightarrow> False | c # t \<Rightarrow> c = CHR ''-'');
         ds = (case s of [] \<Rightarrow> [] | c # t \<Rightarrow> if c = CHR ''-'' \<or> c = CHR ''+'' then t else s)
     in if ds = [] then None
        else case digits_value 0 ds of
          None \<Rightarrow> None
        | Some n \<Rightarrow> if neg then (if n \<le> 2 ^ 63 then Some (- int n) else None)
                   else (if n < 2 ^ 63 then Some (int n) else None))"

definition digit_char :: "nat \<Rightarrow> char" where
  "digit_char d = char_of (48 + d)"

fun nat_digits :: "nat \<Rightarrow> string" where
  "nat_digits n = (if n < 10 then [digit_char n] else nat_digits (n div 10) @ [digit_char (n mod 10)])"

declare nat_digits.simps [simp del]

definition Itoa :: "int \<Rightarrow> string" where
  "Itoa i = (if i < 0 then CHR ''-'' # nat_digits (nat (- i)) else nat_digits (nat i))"

lemma of_char_digit_char: "d < 10 \<Longrightarrow> (of_char (digit_char d) :: nat) = 48 + d"
  by (simp add: digit_char_def)

lemma digit_of_digit_char [simp]: "d < 10 \<Longrightarrow> digit_of (digit_char d) = Some d"
  by (simp add: digit_of_def of_char_digit_char Let_def)

lemma digits_value_append:
  "digits_value acc (s @ t) =
    (case digits_value acc s of None \<Rightarrow> None | Some v \<Rightarrow> digits_value v t)"
  by (induction s arbitrary: acc) (auto split: option.splits)

lemma digits_value_nat_digits: "digits_value 0 (nat_digits n) = Some n"
proof (induction n rule: nat_digits.induct)
  case (1 n)
  then show ?case
    by (cases "n < 10") (simp_all add: nat_digits.simps [of n] digits_value_append)
qed

lemma nat_digits_nonempty [simp]: "nat_digits n \<noteq> []"
  by (subst nat_digits.simps) simp

lemma nat_digits_digits: "c \<in> set (nat_digits n) \<Longrightarrow> 48 \<le> (of_char c :: nat) \<and> (of_char c :: nat) \<le> 57"
proof (induction n rule: nat_digits.induct)
  case (1 n)
  then show ?case
    by (cases "n < 10") (auto simp: nat_digits.simps [of n] of_char_digit_char)
qed

lemma nat_digits_hd: "nat_digits n = c # s \<Longrightarrow> c \<noteq> CHR ''-'' \<and> c \<noteq> CHR ''+''"
  using nat_digits_digits [of c n] by auto

lemma Atoi_Itoa:
  assumes "- (2 ^ 63) \<le> i" and "i < 2 ^ 63"
  shows "Atoi (Itoa i) = Some i"
proof (cases "i < 0")
  case True
  then show ?thesis using assms
    by (simp add: Atoi_def Itoa_def digits_value_nat_digits nat_le_iff)
next
  case False
  obtain c s where cs: "nat_digits (nat i) = c # s" by (cases "nat_digits (nat i)") auto
  have dv: "digits_value 0 (c # s) = Some (nat i)"
    using digits_value_nat_digits [of "nat i"] cs by simp
  have "nat i < 2 ^ 63" using assms(2) False by (simp add: nat_less_iff)
  then show ?thesis using False nat_digits_hd [OF cs] dv
    by (simp add: Atoi_def Itoa_def cs del: digits_value.simps)
qed

end
