(* ===== verification/GoJson.thy ===== *)
theory GoJson imports GoStrings begin

text \<open>
  The part of Go's \<open>encoding/json\<close> the shim uses. Writing: string literals with the escapes
  of \<open>json.Marshal\<close> (HTML characters, control characters, the line separators and invalid
  UTF-8). Reading: the byte-wise scanner with its stack of open values, validity of a text,
  the members of a top-level object as raw text, and the value of a string literal.
\<close>

section \<open>UTF-8\<close>

abbreviation (input) code :: "char \<Rightarrow> nat" where "code c \<equiv> of_char c"

definition cont_byte :: "nat \<Rightarrow> nat \<Rightarrow> char \<Rightarrow> bool" where
  "cont_byte lo hi c = (lo \<le> code c \<and> code c \<le> hi)"

text \<open>The size of the valid rune at the head of the bytes; \<open>None\<close> when the head is invalid.\<close>

fun rune_size :: "string \<Rightarrow> nat option" where
  "rune_size [] = None"
| "rune_size (c # s) =
    (let b = code c;
         tail = (\<lambda>n lo hi. if length s \<ge> n \<and> cont_byte lo hi (s ! 0)
                           \<and> list_all (cont_byte 128 191) (take (n - 1) (drop 1 s))
                          then Some (Suc n) else None)
     in if b < 128 then Some 1
        else if b < 194 then None
        else if b < 224 then tail 1 128 191
        else if b = 224 then tail 2 160 191
        else if b = 237 then tail 2 128 159
        else if b < 240 then tail 2 128 191
        else if b = 240 then tail 3 144 191
        else if b < 244 then tail 3 128 191
        else if b = 244 then tail 3 128 143
        else None)"

lemma rune_size_bounds: "rune_size s = Some n \<Longrightarrow> 0 < n \<and> n \<le> length s"
  by (cases s) (auto simp: Let_def split: if_splits)

lemma rune_size_ascii [simp]: "code c < 128 \<Longrightarrow> rune_size (c # s) = Some 1"
  by (simp add: Let_def)

declare rune_size.simps [simp del]

lemma rune_size_drop: "rune_size (c # t) = Some n \<Longrightarrow> Suc (length t) - n < Suc (length t)"
  using rune_size_bounds [of "c # t" n] by simp

definition replacement :: string where
  "replacement = [CHR 0xEF, CHR 0xBF, CHR 0xBD]"

definition encode_rune :: "nat \<Rightarrow> string" where
  "encode_rune r =
    (if r < 128 then [char_of r]
     else if r < 2048 then [char_of (192 + r div 64), char_of (128 + r mod 64)]
     else if r < 65536 then
       [char_of (224 + r div 4096), char_of (128 + r div 64 mod 64), char_of (128 + r mod 64)]
     else [char_of (240 + r div 262144), char_of (128 + r div 4096 mod 64),
           char_of (128 + r div 64 mod 64), char_of (128 + r mod 64)])"

text \<open>The text with every invalid byte replaced by U+FFFD.\<close>

function coerce_utf8 :: "string \<Rightarrow> string" where
  "coerce_utf8 s =
    (case s of [] \<Rightarrow> []
     | c # t \<Rightarrow> (case rune_size s of
         None \<Rightarrow> replacement @ coerce_utf8 t
       | Some n \<Rightarrow> take n s @ coerce_utf8 (drop n s)))"
  by pat_completeness auto
termination
  by (relation "measure length") (auto dest: rune_size_drop)

declare coerce_utf8.simps [simp del]

section \<open>Writing string literals\<close>

definition hex_digit :: "nat \<Rightarrow> char" where
  "hex_digit d = char_of (if d < 10 then 48 + d else 87 + d)"

definition esc_byte :: "char \<Rightarrow> string" where
  "esc_byte c =
    (if c = CHR ''\"'' \<or> c = CHR 0x5C then [CHR 0x5C, c]
     else if code c = 8 then [CHR 0x5C, CHR ''b'']
     else if code c = 12 then [CHR 0x5C, CHR ''f'']
     else if code c = 10 then [CHR 0x5C, CHR ''n'']
     else if code c = 13 then [CHR 0x5C, CHR ''r'']
     else if code c = 9 then [CHR 0x5C, CHR ''t'']
     else if code c < 32 \<or> c = CHR ''<'' \<or> c = CHR ''>'' \<or> c = CHR ''&''
     then [CHR 0x5C, CHR ''u'', CHR ''0'', CHR ''0'', hex_digit (code c div 16), hex_digit (code c mod 16)]
     else [c])"

function json_body :: "string \<Rightarrow> string" where
  "json_body s =
    (case s of [] \<Rightarrow> []
     | c # t \<Rightarrow>
       (if code c < 128 then esc_byte c @ json_body t
        else (case rune_size s of
          None \<Rightarrow> CHR 0x5C # ''ufffd'' @ json_body t
        | Some n \<Rightarrow>
          (if take n s = [CHR 0xE2, CHR 0x80, CHR 0xA8] then CHR 0x5C # ''u2028'' @ json_body (drop n s)
           else if take n s = [CHR 0xE2, CHR 0x80, CHR 0xA9] then CHR 0x5C # ''u2029'' @ json_body (drop n s)
           else take n s @ json_body (drop n s)))))"
  by pat_completeness auto
termination
  by (relation "measure length") (auto dest: rune_size_drop)

declare json_body.simps [simp del]

definition json_string :: "string \<Rightarrow> string" where
  "json_string s = CHR ''\"'' # json_body s @ [CHR ''\"'']"

section \<open>The scanner\<close>

datatype jstate =
    BeginValue | BeginValueOrEmpty | BeginString | BeginStringOrEmpty | EndValue | EndTop
  | InString | InEsc | InEscU nat
  | Neg | NumInt | NumZero | Dot | Dot0 | Exp | ExpSign | Exp0
  | Lit string | JError

datatype jctx = ObjectKey | ObjectValue | ArrayValue

type_synonym jscan = "jstate \<times> jctx list"

definition j_space :: "char \<Rightarrow> bool" where
  "j_space c \<longleftrightarrow> c = CHR '' '' \<or> code c = 9 \<or> code c = 13 \<or> code c = 10"

definition is_digit :: "char \<Rightarrow> bool" where
  "is_digit c \<longleftrightarrow> 48 \<le> code c \<and> code c \<le> 57"

definition hex_value :: "char \<Rightarrow> nat option" where
  "hex_value c =
    (let b = code c
     in if 48 \<le> b \<and> b \<le> 57 then Some (b - 48)
        else if 97 \<le> b \<and> b \<le> 102 then Some (b - 87)
        else if 65 \<le> b \<and> b \<le> 70 then Some (b - 55) else None)"

definition max_nesting :: nat where "max_nesting = 10000"

definition j_push :: "jstate \<Rightarrow> jctx \<Rightarrow> jctx list \<Rightarrow> jscan" where
  "j_push st x stk = (if length stk < max_nesting then (st, x # stk) else (JError, stk))"

definition j_pop :: "jctx list \<Rightarrow> jscan" where
  "j_pop stk = (if stk = [] then (EndTop, []) else (EndValue, stk))"

fun j_end_value :: "jctx list \<Rightarrow> char \<Rightarrow> jscan" where
  "j_end_value [] c = (if j_space c then (EndTop, []) else (JError, []))"
| "j_end_value (x # stk) c =
    (if j_space c then (EndValue, x # stk)
     else (case x of
       ObjectKey \<Rightarrow> if c = CHR '':'' then (BeginValue, ObjectValue # stk) else (JError, x # stk)
     | ObjectValue \<Rightarrow>
         if c = CHR '','' then (BeginString, ObjectKey # stk)
         else if c = CHR ''}'' then j_pop stk else (JError, x # stk)
     | ArrayValue \<Rightarrow>
         if c = CHR '','' then (BeginValue, ArrayValue # stk)
         else if c = CHR '']'' then j_pop stk else (JError, x # stk)))"

definition j_begin_value :: "jctx list \<Rightarrow> char \<Rightarrow> jscan" where
  "j_begin_value stk c =
    (if j_space c then (BeginValue, stk)
     else if c = CHR ''{'' then j_push BeginStringOrEmpty ObjectKey stk
     else if c = CHR ''['' then j_push BeginValueOrEmpty ArrayValue stk
     else if c = CHR ''\"'' then (InString, stk)
     else if c = CHR ''-'' then (Neg, stk)
     else if c = CHR ''0'' then (NumZero, stk)
     else if c = CHR ''t'' then (Lit ''rue'', stk)
     else if c = CHR ''f'' then (Lit ''alse'', stk)
     else if c = CHR ''n'' then (Lit ''ull'', stk)
     else if is_digit c then (NumInt, stk)
     else (JError, stk))"

definition j_num0 :: "jctx list \<Rightarrow> char \<Rightarrow> jscan" where
  "j_num0 stk c =
    (if c = CHR ''.'' then (Dot, stk)
     else if c = CHR ''e'' \<or> c = CHR ''E'' then (Exp, stk)
     else j_end_value stk c)"

fun j_step :: "jscan \<Rightarrow> char \<Rightarrow> jscan" where
  "j_step (BeginValue, stk) c = j_begin_value stk c"
| "j_step (BeginValueOrEmpty, stk) c =
    (if j_space c then (BeginValueOrEmpty, stk)
     else if c = CHR '']'' then j_end_value stk c else j_begin_value stk c)"
| "j_step (BeginStringOrEmpty, stk) c =
    (if j_space c then (BeginStringOrEmpty, stk)
     else if c = CHR ''}'' then j_end_value (ObjectValue # tl stk) c
     else if c = CHR ''\"'' then (InString, stk) else (JError, stk))"
| "j_step (BeginString, stk) c =
    (if j_space c then (BeginString, stk)
     else if c = CHR ''\"'' then (InString, stk) else (JError, stk))"
| "j_step (EndValue, stk) c = j_end_value stk c"
| "j_step (EndTop, stk) c = (if j_space c then (EndTop, stk) else (JError, stk))"
| "j_step (InString, stk) c =
    (if c = CHR ''\"'' then (EndValue, stk)
     else if c = CHR 0x5C then (InEsc, stk)
     else if code c < 32 then (JError, stk) else (InString, stk))"
| "j_step (InEsc, stk) c =
    (if c \<in> {CHR ''b'', CHR ''f'', CHR ''n'', CHR ''r'', CHR ''t'', CHR 0x5C, CHR ''/'', CHR ''\"''}
     then (InString, stk)
     else if c = CHR ''u'' then (InEscU 3, stk) else (JError, stk))"
| "j_step (InEscU n, stk) c =
    (if hex_value c = None then (JError, stk)
     else (case n of 0 \<Rightarrow> (InString, stk) | Suc m \<Rightarrow> (InEscU m, stk)))"
| "j_step (Neg, stk) c =
    (if c = CHR ''0'' then (NumZero, stk) else if is_digit c then (NumInt, stk) else (JError, stk))"
| "j_step (NumInt, stk) c = (if is_digit c then (NumInt, stk) else j_num0 stk c)"
| "j_step (NumZero, stk) c = j_num0 stk c"
| "j_step (Dot, stk) c = (if is_digit c then (Dot0, stk) else (JError, stk))"
| "j_step (Dot0, stk) c =
    (if is_digit c then (Dot0, stk)
     else if c = CHR ''e'' \<or> c = CHR ''E'' then (Exp, stk) else j_end_value stk c)"
| "j_step (Exp, stk) c =
    (if c = CHR ''+'' \<or> c = CHR ''-'' then (ExpSign, stk)
     else if is_digit c then (Exp0, stk) else (JError, stk))"
| "j_step (ExpSign, stk) c = (if is_digit c then (Exp0, stk) else (JError, stk))"
| "j_step (Exp0, stk) c = (if is_digit c then (Exp0, stk) else j_end_value stk c)"
| "j_step (Lit w, stk) c =
    (case w of [] \<Rightarrow> (JError, stk)
     | x # w' \<Rightarrow> if c = x then (if w' = [] then (EndValue, stk) else (Lit w', stk)) else (JError, stk))"
| "j_step (JError, stk) c = (JError, stk)"

text \<open>
  A complete text is valid when the scanner, fed one more blank, stands at the end of the
  top-level value.
\<close>

definition json_valid :: "string \<Rightarrow> bool" where
  "json_valid s = (fst (j_step (foldl j_step (BeginValue, []) s) CHR '' '') = EndTop)"

section \<open>The members of a top-level object\<close>

text \<open>
  The scan of an object that also collects, at nesting depth one, the raw text of the
  current key and of the current value, and the finished members.
\<close>

record jcap =
  js :: jscan
  jkey :: string
  jval :: string
  jmems :: "(string \<times> string) list"

definition in_string :: "jstate \<Rightarrow> bool" where
  "in_string st = (case st of InString \<Rightarrow> True | InEsc \<Rightarrow> True | InEscU _ \<Rightarrow> True | _ \<Rightarrow> False)"

definition in_number :: "jstate \<Rightarrow> bool" where
  "in_number st = (st \<in> {Neg, NumInt, NumZero, Dot, Dot0, Exp, ExpSign, Exp0})"

definition in_literal :: "jstate \<Rightarrow> bool" where
  "in_literal st = (case st of Lit _ \<Rightarrow> True | _ \<Rightarrow> False)"

definition key_char :: "jscan \<Rightarrow> jscan \<Rightarrow> bool" where
  "key_char p q \<longleftrightarrow> snd p = [ObjectKey] \<and> (in_string (fst p) \<or> in_string (fst q))"

definition val_char :: "jscan \<Rightarrow> jscan \<Rightarrow> bool" where
  "val_char p q \<longleftrightarrow> 1 < length (snd p) \<or> 1 < length (snd q)
     \<or> (snd p = [ObjectValue] \<and> (in_string (fst p) \<or> in_literal (fst p)
          \<or> (in_number (fst p) \<and> in_number (fst q))
          \<or> (fst p = BeginValue \<and> fst q \<noteq> BeginValue)))"

definition mem_done :: "jscan \<Rightarrow> jscan \<Rightarrow> bool" where
  "mem_done p q \<longleftrightarrow> snd p = [ObjectValue] \<and> snd q \<in> {[ObjectKey], []}"

definition cap_step :: "jcap \<Rightarrow> char \<Rightarrow> jcap" where
  "cap_step a c =
    (let p = js a; q = j_step p c
     in if mem_done p q
        then \<lparr>js = q, jkey = [], jval = [], jmems = jmems a @ [(jkey a, jval a)]\<rparr>
        else a\<lparr>js := q,
               jkey := (if key_char p q then jkey a @ [c] else jkey a),
               jval := (if val_char p q then jval a @ [c] else jval a)\<rparr>)"

definition cap_init :: jcap where
  "cap_init = \<lparr>js = (BeginValue, []), jkey = [], jval = [], jmems = []\<rparr>"

definition json_members :: "string \<Rightarrow> (string \<times> string) list option" where
  "json_members s = (if json_valid s then Some (jmems (foldl cap_step cap_init s)) else None)"

section \<open>The value of a string literal\<close>

definition hex4 :: "string \<Rightarrow> nat option" where
  "hex4 s =
    (case s of
       a # b # c # d # _ \<Rightarrow>
         (case (hex_value a, hex_value b, hex_value c, hex_value d) of
            (Some w, Some x, Some y, Some z) \<Rightarrow> Some (4096 * w + 256 * x + 16 * y + z)
          | _ \<Rightarrow> None)
     | _ \<Rightarrow> None)"

text \<open>The code point of a surrogate pair whose second half follows as another escape.\<close>

definition low_surrogate :: "string \<Rightarrow> nat option" where
  "low_surrogate s =
    (case s of
       x # y # t \<Rightarrow> if x = CHR 0x5C \<and> y = CHR ''u''
                      then (case hex4 t of Some v \<Rightarrow> if 0xDC00 \<le> v \<and> v < 0xE000 then Some v else None
                            | None \<Rightarrow> None)
                      else None
     | _ \<Rightarrow> None)"

definition simple_escape :: "char \<Rightarrow> char" where
  "simple_escape c =
    (if c = CHR ''b'' then CHR 0x08 else if c = CHR ''f'' then CHR 0x0C
     else if c = CHR ''n'' then CHR 0x0A else if c = CHR ''r'' then CHR 0x0D
     else if c = CHR ''t'' then CHR 0x09 else c)"

text \<open>The first unit of a literal's body: the bytes it stands for and the length of its text.\<close>

definition unquote_unit :: "string \<Rightarrow> string \<times> nat" where
  "unquote_unit s =
    (case s of [] \<Rightarrow> ([], 1)
     | c # t \<Rightarrow>
       (if c = CHR 0x5C then
          (case t of [] \<Rightarrow> ([], 1)
           | e # u \<Rightarrow>
             (if e = CHR ''u'' then
                (case hex4 u of
                   None \<Rightarrow> ([], 2)
                 | Some v \<Rightarrow>
                   (if 0xD800 \<le> v \<and> v < 0xE000 then
                      (case (v < 0xDC00, low_surrogate (drop 4 u)) of
                         (True, Some w) \<Rightarrow>
                           (encode_rune (0x10000 + (v - 0xD800) * 1024 + (w - 0xDC00)), 12)
                       | _ \<Rightarrow> (replacement, 6))
                    else (encode_rune v, 6)))
              else ([simple_escape e], 2)))
        else (case rune_size s of None \<Rightarrow> (replacement, 1) | Some n \<Rightarrow> (take n s, n))))"

function unquote_body :: "string \<Rightarrow> string" where
  "unquote_body s =
    (if s = [] then []
     else fst (unquote_unit s) @ unquote_body (drop (snd (unquote_unit s)) s))"
  by pat_completeness auto
termination
proof (relation "measure length", goal_cases)
  case (2 s)
  then obtain c t where s: "s = c # t" by (cases s) auto
  have "0 < snd (unquote_unit s)"
    using rune_size_bounds [of s]
    by (auto simp: unquote_unit_def s Let_def split: list.splits option.splits if_splits prod.splits bool.splits
       )
  then show ?case using s by simp
qed simp

declare unquote_body.simps [simp del]

text \<open>\<open>json.Unmarshal\<close> of a raw value into a Go string: \<open>None\<close> is an error.\<close>

definition unmarshal_string :: "string \<Rightarrow> string option" where
  "unmarshal_string raw =
    (if \<not> json_valid raw then None
     else let s = rev (dropWhile j_space (rev (dropWhile j_space raw)))
          in if s = ''null'' then Some []
             else if s \<noteq> [] \<and> hd s = CHR ''\"'' then Some (unquote_body (butlast (tl s)))
             else None)"

end
