(* ===== verification/JsonText.thy ===== *)
theory JsonText imports GoJson begin

text \<open>
  The round trip of JSON string literals: what \<open>json.Marshal\<close> writes for any byte string is
  scanned as one literal, and \<open>json.Unmarshal\<close> reads back the string with invalid UTF-8
  replaced. Objects whose members are written in order are read back member by member.
\<close>

section \<open>Reading back what was written\<close>

lemma esc_byte_cases:
  obtains (plain) "esc_byte c = [c]" "c \<noteq> CHR ''\"''" "c \<noteq> CHR 0x5C" "32 \<le> code c"
  | (simple) e where "esc_byte c = [CHR 0x5C, e]" "simple_escape e = c" "e \<noteq> CHR ''u''"
      "e \<in> {CHR ''b'', CHR ''f'', CHR ''n'', CHR ''r'', CHR ''t'', CHR 0x5C, CHR ''/'', CHR ''\"''}"
  | (unicode) x y where "esc_byte c = [CHR 0x5C, CHR ''u'', CHR ''0'', CHR ''0'', x, y]" "code c < 128"
      "x = hex_digit (code c div 16)" "y = hex_digit (code c mod 16)"
proof (cases "c = CHR ''\"'' \<or> c = CHR 0x5C \<or> code c \<in> {8, 12, 10, 13, 9}")
  case True
  have "c = CHR ''\"'' \<or> c = CHR 0x5C \<or> c = CHR 0x08 \<or> c = CHR 0x0C \<or> c = CHR 0x0A
      \<or> c = CHR 0x0D \<or> c = CHR 0x09"
  proof -
    have "char_of (8::nat) = CHR 0x08" "char_of (12::nat) = CHR 0x0C" "char_of (10::nat) = CHR 0x0A"
        "char_of (13::nat) = CHR 0x0D" "char_of (9::nat) = CHR 0x09"
      by code_simp+
    then show ?thesis using True char_of_char [of c] by (metis insert_iff singleton_iff)
  qed
  then show ?thesis
  proof (elim disjE)
    assume "c = CHR 0x08"
    then show ?thesis by (intro simple [of "CHR ''b''"]) (simp_all add: esc_byte_def simple_escape_def)
  next
    assume "c = CHR 0x0C"
    then show ?thesis by (intro simple [of "CHR ''f''"]) (simp_all add: esc_byte_def simple_escape_def)
  next
    assume "c = CHR 0x0A"
    then show ?thesis by (intro simple [of "CHR ''n''"]) (simp_all add: esc_byte_def simple_escape_def)
  next
    assume "c = CHR 0x0D"
    then show ?thesis by (intro simple [of "CHR ''r''"]) (simp_all add: esc_byte_def simple_escape_def)
  next
    assume "c = CHR 0x09"
    then show ?thesis by (intro simple [of "CHR ''t''"]) (simp_all add: esc_byte_def simple_escape_def)
  qed (auto intro!: simple simp: esc_byte_def simple_escape_def)
next
  case False
  show ?thesis
  proof (cases "code c < 32 \<or> c = CHR ''<'' \<or> c = CHR ''>'' \<or> c = CHR ''&''")
    case True
    then have "code c < 128" by auto
    with False True show ?thesis by (intro unicode) (auto simp: esc_byte_def)
  next
    case no: False
    with False show ?thesis by (intro plain) (auto simp: esc_byte_def)
  qed
qed

lemma hex_value_digit: "d < 16 \<Longrightarrow> hex_value (hex_digit d) = Some d"
  by (auto simp: hex_value_def hex_digit_def Let_def)

lemma hex4_byte:
  assumes "n < 128"
  shows "hex4 (CHR ''0'' # CHR ''0'' # hex_digit (n div 16) # hex_digit (n mod 16) # r) = Some n"
proof -
  have "hex_value CHR ''0'' = Some 0" by (simp add: hex_value_def)
  moreover have "n div 16 < 16" using assms by simp
  ultimately show ?thesis by (simp add: hex4_def hex_value_digit)
qed

lemma unquote_esc_byte:
  assumes "code c < 128"
  shows "unquote_unit (esc_byte c @ r) = ([c], length (esc_byte c))"
proof (cases c rule: esc_byte_cases)
  case plain
  then show ?thesis using assms by (simp add: unquote_unit_def)
next
  case (simple e)
  then show ?thesis by (simp add: unquote_unit_def)
next
  case (unicode x y)
  then have "hex4 (CHR ''0'' # CHR ''0'' # x # y # r) = Some (code c)" using hex4_byte assms by simp
  then show ?thesis using unicode assms by (simp add: unquote_unit_def encode_rune_def)
qed

text \<open>The length of the tail and the range of its first byte, by the head byte.\<close>

definition rune_class :: "nat \<Rightarrow> (nat \<times> nat \<times> nat) option" where
  "rune_class b =
    (if b < 194 then None
     else if b < 224 then Some (1, 128, 191)
     else if b = 224 then Some (2, 160, 191)
     else if b = 237 then Some (2, 128, 159)
     else if b < 240 then Some (2, 128, 191)
     else if b = 240 then Some (3, 144, 191)
     else if b < 244 then Some (3, 128, 191)
     else if b = 244 then Some (3, 128, 143)
     else None)"

lemma rune_class_size: "rune_class b = Some (k, lo, hi) \<Longrightarrow> k \<in> {1, 2, 3}"
  by (auto simp: rune_class_def split: if_splits)

lemma rune_size_class:
  assumes "128 \<le> code c"
  shows "rune_size (c # s) =
    (case rune_class (code c) of None \<Rightarrow> None
     | Some (k, lo, hi) \<Rightarrow>
        if k \<le> length s \<and> cont_byte lo hi (s ! 0) \<and> list_all (cont_byte 128 191) (take (k - 1) (drop 1 s))
        then Some (Suc k) else None)"
  using assms by (simp add: rune_size.simps rune_class_def Let_def)

lemma rune_size_take:
  assumes "rune_size s = Some n"
  shows "rune_size (take n s @ r) = Some n"
proof (cases s)
  case (Cons c t)
  show ?thesis
  proof (cases "code c < 128")
    case True
    then have "n = 1" using assms Cons by simp
    then show ?thesis using Cons True by simp
  next
    case False
    then obtain k lo hi where k: "rune_class (code c) = Some (k, lo, hi)" "n = Suc k" "k \<le> length t"
        "cont_byte lo hi (t ! 0)" "list_all (cont_byte 128 191) (take (k - 1) (drop 1 t))"
      using assms Cons by (auto simp: rune_size_class split: option.splits if_splits)
    have "k \<in> {1, 2, 3}" using k(1) by (rule rune_class_size)
    then have "0 < k" by auto
    obtain j x t' where j: "k = Suc j" "t = x # t'" "j \<le> length t'"
      using \<open>0 < k\<close> k(3) by (cases k; cases t) auto
    have "(take k t @ r) ! 0 = t ! 0" using j by simp
    moreover have "take (k - 1) (drop 1 (take k t @ r)) = take (k - 1) (drop 1 t)" using j by simp
    ultimately show ?thesis using False Cons k by (simp add: rune_size_class)
  qed
qed (use assms in \<open>simp add: rune_size.simps\<close>)

lemma rune_size_high:
  assumes "rune_size s = Some n" "128 \<le> code (hd s)"
  shows "list_all (\<lambda>c. 128 \<le> code c) (take n s)"
proof (cases s)
  case (Cons c t)
  then obtain k lo hi where k: "rune_class (code c) = Some (k, lo, hi)" "n = Suc k" "k \<le> length t"
      "cont_byte lo hi (t ! 0)" "list_all (cont_byte 128 191) (take (k - 1) (drop 1 t))"
    using assms by (auto simp: rune_size_class split: option.splits if_splits)
  have "128 \<le> lo" using k(1) by (auto simp: rune_class_def split: if_splits)
  then have "128 \<le> code (t ! 0)" using k(4) by (simp add: cont_byte_def)
  moreover have "list_all (\<lambda>c. 128 \<le> code c) (take (k - 1) (drop 1 t))"
    using k(5) by (auto simp: list_all_iff cont_byte_def)
  moreover have "k \<in> {1, 2, 3}" using k(1) by (rule rune_class_size)
  ultimately show ?thesis using k(2,3) assms(2) Cons by (cases t) (auto simp: take_Cons')
qed (use assms in \<open>simp add: rune_size.simps\<close>)


lemma json_body_simps:
  "json_body [] = []"
  "code c < 128 \<Longrightarrow> json_body (c # t) = esc_byte c @ json_body t"
  by (subst json_body.simps, simp)+

lemma coerce_utf8_simps:
  "coerce_utf8 [] = []"
  "code c < 128 \<Longrightarrow> coerce_utf8 (c # t) = c # coerce_utf8 t"
  by (subst coerce_utf8.simps, simp)+

lemma unquote_body_step:
  "unquote_unit (u @ r) = (v, length u) \<Longrightarrow> u \<noteq> [] \<Longrightarrow> unquote_body (u @ r) = v @ unquote_body r"
  by (subst unquote_body.simps) simp

text \<open>What the writer emits for one valid multi-byte rune.\<close>

definition json_rune :: "string \<Rightarrow> string" where
  "json_rune r =
    (if r = [CHR 0xE2, CHR 0x80, CHR 0xA8] then CHR 0x5C # ''u2028''
     else if r = [CHR 0xE2, CHR 0x80, CHR 0xA9] then CHR 0x5C # ''u2029'' else r)"

lemma json_body_high:
  assumes "128 \<le> code c"
  shows "rune_size (c # t) = None \<Longrightarrow> json_body (c # t) = (CHR 0x5C # ''ufffd'') @ json_body t"
    and "rune_size (c # t) = Some n \<Longrightarrow>
      json_body (c # t) = json_rune (take n (c # t)) @ json_body (drop n (c # t))"
  using assms by (subst json_body.simps, simp add: json_rune_def)+

lemma coerce_utf8_high:
  "rune_size (c # t) = None \<Longrightarrow> coerce_utf8 (c # t) = replacement @ coerce_utf8 t"
  "rune_size (c # t) = Some n \<Longrightarrow> coerce_utf8 (c # t) = take n (c # t) @ coerce_utf8 (drop n (c # t))"
  by (subst coerce_utf8.simps, simp)+

text \<open>Induction along the units of the text.\<close>

lemma utf8_induct [case_names Nil ascii invalid rune]:
  assumes "P []"
    and "\<And>c t. code c < 128 \<Longrightarrow> P t \<Longrightarrow> P (c # t)"
    and "\<And>c t. 128 \<le> code c \<Longrightarrow> rune_size (c # t) = None \<Longrightarrow> P t \<Longrightarrow> P (c # t)"
    and "\<And>c t n. 128 \<le> code c \<Longrightarrow> rune_size (c # t) = Some n \<Longrightarrow> P (drop n (c # t)) \<Longrightarrow> P (c # t)"
  shows "P s"
proof (induction "length s" arbitrary: s rule: less_induct)
  case less
  show ?case
  proof (cases s)
    case (Cons c t)
    show ?thesis
    proof (cases "rune_size s")
      case None
      then show ?thesis using assms(3) [of c t] assms(2) [of c t] less Cons
        by (cases "code c < 128") auto
    next
      case (Some n)
      have "length (drop n s) < length s" using rune_size_bounds [OF Some] by auto
      then show ?thesis using assms(4) [of c t n] assms(2) [of c t] less Cons Some
        by (cases "code c < 128") auto
    qed
  qed (use assms(1) in simp)
qed

lemma escaped_bytes:
  "char_of (239::nat) = CHR 0xEF" "char_of (191::nat) = CHR 0xBF" "char_of (189::nat) = CHR 0xBD"
  "char_of (226::nat) = CHR 0xE2" "char_of (128::nat) = CHR 0x80" "char_of (168::nat) = CHR 0xA8"
  "char_of (169::nat) = CHR 0xA9"
  by code_simp+

lemmas unquote_u_simps = unquote_unit_def hex4_def hex_value_def encode_rune_def replacement_def escaped_bytes

lemma unquote_ufffd: "unquote_body ((CHR 0x5C # ''ufffd'') @ r) = replacement @ unquote_body r"
  by (rule unquote_body_step) (simp_all add: unquote_u_simps)

lemma unquote_rune:
  assumes "rune_size s = Some n" and "128 \<le> code (hd s)"
  shows "unquote_unit (take n s @ r) = (take n s, length (take n s))"
proof -
  have bd: "0 < n" "n \<le> length s" using rune_size_bounds [OF assms(1)] by auto
  then obtain c t where s: "take n s = c # t" and c: "c = hd s"
    by (cases s; cases n) auto
  have "c \<noteq> CHR 0x5C" using assms(2) c by auto
  moreover have "rune_size ((c # t) @ r) = Some n" using rune_size_take [OF assms(1), of r] s by simp
  moreover have "take n ((c # t) @ r) = c # t" using bd by (simp flip: s)
  moreover have "length (c # t) = n" using bd by (simp flip: s)
  ultimately show ?thesis unfolding s by (simp add: unquote_unit_def)
qed

lemma unquote_json_rune:
  assumes "rune_size s = Some n" and "128 \<le> code (hd s)"
  shows "unquote_body (json_rune (take n s) @ r) = take n s @ unquote_body r"
proof -
  have ne: "take n s \<noteq> []" using rune_size_bounds [OF assms(1)] by (cases s) auto
  show ?thesis
  proof (cases "take n s \<in> {[CHR 0xE2, CHR 0x80, CHR 0xA8], [CHR 0xE2, CHR 0x80, CHR 0xA9]}")
    case True
    have "unquote_body ((CHR 0x5C # ''u2028'') @ r) = [CHR 0xE2, CHR 0x80, CHR 0xA8] @ unquote_body r"
        "unquote_body ((CHR 0x5C # ''u2029'') @ r) = [CHR 0xE2, CHR 0x80, CHR 0xA9] @ unquote_body r"
      by (rule unquote_body_step; simp add: unquote_u_simps)+
    then show ?thesis using True by (auto simp: json_rune_def)
  next
    case False
    with unquote_body_step [OF unquote_rune [OF assms] ne] show ?thesis by (simp add: json_rune_def)
  qed
qed

lemma unquote_json_body: "unquote_body (json_body s) = coerce_utf8 s"
proof (induction s rule: utf8_induct)
  case Nil
  then show ?case by (simp add: json_body_simps coerce_utf8_simps unquote_body.simps)
next
  case (ascii c t)
  have "esc_byte c \<noteq> []" by (simp add: esc_byte_def)
  with ascii show ?case
    by (simp add: json_body_simps coerce_utf8_simps unquote_body_step [OF unquote_esc_byte])
next
  case (invalid c t)
  then show ?case by (simp only: json_body_high coerce_utf8_high unquote_ufffd)
next
  case (rune c t n)
  then show ?case by (simp only: json_body_high coerce_utf8_high unquote_json_rune list.sel)
qed

section \<open>Scanning what was written\<close>

text \<open>
  A text is \<open>inside\<close> a literal when the scanner, started inside a string, is inside it again
  after the text, and the collecting scan of an object adds exactly this text to the value.
\<close>

definition inside :: "string \<Rightarrow> bool" where
  "inside u \<longleftrightarrow>
     (\<forall>stk. foldl j_step (InString, stk) u = (InString, stk))
     \<and> (\<forall>a. js a = (InString, [ObjectValue]) \<longrightarrow> foldl cap_step a u = a\<lparr>jval := jval a @ u\<rparr>)"

lemma inside_Nil [simp]: "inside []"
  by (simp add: inside_def)

lemma inside_append: "inside u \<Longrightarrow> inside v \<Longrightarrow> inside (u @ v)"
  by (simp add: inside_def)

lemma j_step_string_stack: "in_string (fst p) \<Longrightarrow> snd (j_step p c) = snd p"
  by (cases p; cases "fst p") (auto simp: in_string_def split: nat.splits)

lemma cap_step_string:
  "in_string (fst (js a)) \<Longrightarrow> snd (js a) = [ObjectValue] \<Longrightarrow>
     cap_step a c = a\<lparr>js := j_step (js a) c, jval := jval a @ [c]\<rparr>"
  using j_step_string_stack [of "js a" c]
  by (cases a; cases "js a") (auto simp: cap_step_def mem_done_def key_char_def val_char_def Let_def)

lemma inside_unit:
  assumes "\<And>stk. foldl j_step (InString, stk) u = (InString, stk)"
    and "\<And>n stk. n < length u \<Longrightarrow> in_string (fst (foldl j_step (InString, stk) (take n u)))"
  shows "inside u"
proof -
  let ?p = "\<lambda>n. foldl j_step (InString, [ObjectValue]) (take n u)"
  have stk: "snd (?p n) = [ObjectValue]" if "n \<le> length u" for n
    using that
  proof (induction n)
    case (Suc n)
    then have "?p (Suc n) = j_step (?p n) (u ! n)" by (simp add: take_Suc_conv_app_nth)
    moreover have "snd (j_step (?p n) (u ! n)) = snd (?p n)"
      using Suc.prems by (intro j_step_string_stack assms(2)) simp
    ultimately show ?case using Suc by simp
  qed simp
  have "foldl cap_step a (take n u) = a\<lparr>js := ?p n, jval := jval a @ take n u\<rparr>"
    if "n \<le> length u" "js a = (InString, [ObjectValue])" for a n
    using that
  proof (induction n)
    case (Suc n)
    then show ?case using assms(2) [of n "[ObjectValue]"] stk [of n]
      by (simp add: take_Suc_conv_app_nth cap_step_string)
  qed (cases a, simp)
  from this [of "length u"] show ?thesis using assms(1) by (simp add: inside_def)
qed

lemma inside_plain: "c \<noteq> CHR ''\"'' \<Longrightarrow> c \<noteq> CHR 0x5C \<Longrightarrow> 32 \<le> code c \<Longrightarrow> inside [c]"
  by (rule inside_unit) (auto simp: in_string_def)

lemma inside_simple:
  "e \<in> {CHR ''b'', CHR ''f'', CHR ''n'', CHR ''r'', CHR ''t'', CHR 0x5C, CHR ''/'', CHR ''\"''} \<Longrightarrow>
    inside [CHR 0x5C, e]"
  by (rule inside_unit) (auto simp: in_string_def less_Suc_eq take_Cons' simp del: insert_iff)

lemma inside_unicode:
  assumes "hex_value a \<noteq> None" "hex_value b \<noteq> None" "hex_value x \<noteq> None" "hex_value y \<noteq> None"
  shows "inside [CHR 0x5C, CHR ''u'', a, b, x, y]"
  by (rule inside_unit) (use assms in \<open>auto simp: in_string_def less_Suc_eq take_Cons' numeral_eq_Suc\<close>)

lemma inside_high: "list_all (\<lambda>c. 128 \<le> code c) u \<Longrightarrow> inside u"
proof (induction u)
  case (Cons c u)
  have "c \<noteq> CHR ''\"''" "c \<noteq> CHR 0x5C" using Cons.prems by auto
  then have "inside [c]" using Cons.prems by (intro inside_plain) auto
  then show ?case using inside_append [of "[c]" u] Cons by simp
qed simp

lemma hex_value_zero: "hex_value CHR ''0'' = Some 0"
  by (simp add: hex_value_def)

lemma inside_esc_byte:
  shows "inside (esc_byte c)"
proof (cases c rule: esc_byte_cases)
  case (unicode x y)
  then have "code c div 16 < 16" by simp
  then show ?thesis using unicode
    by (simp add: inside_unicode hex_value_digit hex_value_zero)
qed (simp_all add: inside_plain inside_simple del: insert_iff)

lemma inside_json_rune:
  "rune_size s = Some n \<Longrightarrow> 128 \<le> code (hd s) \<Longrightarrow> inside (json_rune (take n s))"
  using inside_high [OF rune_size_high [of s n]]
    inside_unicode [of "CHR ''2''" "CHR ''0''" "CHR ''2''" "CHR ''8''"]
    inside_unicode [of "CHR ''2''" "CHR ''0''" "CHR ''2''" "CHR ''9''"]
  by (simp add: json_rune_def hex_value_def)

lemma inside_json_body: "inside (json_body s)"
proof (induction s rule: utf8_induct)
  case (invalid c t)
  have "inside (CHR 0x5C # ''ufffd'')" by (simp add: inside_unicode hex_value_def)
  with invalid show ?case by (simp only: json_body_high inside_append)
next
  case (rune c t n)
  then show ?case by (simp only: json_body_high inside_append inside_json_rune list.sel)
qed (simp_all add: json_body_simps inside_append inside_esc_byte)

lemma j_scan_body [simp]: "foldl j_step (InString, stk) (json_body s) = (InString, stk)"
  using inside_json_body [of s] by (simp add: inside_def)

lemma j_scan_string:
  "foldl j_step (InString, stk) (json_body s @ CHR ''\"'' # r) = foldl j_step (EndValue, stk) r"
  by simp

lemma cap_scan_string:
  assumes "js a = (InString, [ObjectValue])"
  shows "foldl cap_step a (json_body s @ CHR ''\"'' # r)
    = foldl cap_step (a\<lparr>js := (EndValue, [ObjectValue]), jval := jval a @ json_body s @ [CHR ''\"'']\<rparr>) r"
  using inside_json_body [of s] assms
  by (simp add: inside_def cap_step_string in_string_def)

text \<open>A literal written by the program is valid JSON and reads back as the (coerced) string.\<close>

lemma unmarshal_json_string: "unmarshal_string (json_string s) = Some (coerce_utf8 s)"
proof -
  have "json_valid (json_string s)"
    by (simp add: json_valid_def json_string_def j_begin_value_def j_space_def j_scan_string)
  moreover have "\<not> j_space CHR ''\"''" by (simp add: j_space_def)
  ultimately show ?thesis
    by (simp add: unmarshal_string_def json_string_def unquote_json_body Let_def)
qed

end
