(* ===== verification/Connector.thy ===== *)
theory Connector imports JsonText begin

text \<open>
  \<open>internal/soloist/connector.go\<close>: the connector that serialises command writes to Soloist's
  WebSocket. Its one field is the attached connection. A write happens under the mutex, so
  each operation is atomic; what \<open>WriteMessage\<close> answers is an argument (the WebSocket
  library is not part of the program), and an operation returns its error together with the
  messages it put on the wire. The locale \<open>command_sender\<close> is the interface through which
  the SSE listener drives playback.
\<close>

section \<open>Commands as JSON texts\<close>

type_synonym member = "string \<times> string"

definition json_member :: "member \<Rightarrow> string" where
  "json_member m = json_string (fst m) @ CHR '':'' # snd m"

fun json_joined :: "member list \<Rightarrow> string" where
  "json_joined [] = []"
| "json_joined [m] = json_member m"
| "json_joined (m # n # ms) = json_member m @ CHR '','' # json_joined (n # ms)"

text \<open>\<open>json.Marshal\<close> of a struct: its fields in order, by their tags.\<close>

definition json_object :: "member list \<Rightarrow> string" where
  "json_object ms = CHR ''{'' # json_joined ms @ ''}''"

definition playCommand :: "string \<Rightarrow> member list" where
  "playCommand uri =
    [(''type'', json_string ''command''), (''command'', json_string ''play''), (''uri'', json_string uri)]"

definition simpleCommand :: "string \<Rightarrow> member list" where
  "simpleCommand command = [(''type'', json_string ''command''), (''command'', json_string command)]"

definition volumeCommand :: "int \<Rightarrow> member list" where
  "volumeCommand volume =
    [(''type'', json_string ''command''), (''command'', json_string ''set_volume''), (''volume'', Itoa volume)]"

section \<open>The connector\<close>

type_synonym message = string

record 'c CommandConnector =
  conn :: "'c option"

text \<open>What an operation did: the error it returned and the messages written, each with its
  connection.\<close>

type_synonym 'c wire = "('c \<times> message) list"

definition new_connector :: "'c CommandConnector" where
  "new_connector = \<lparr>conn = None\<rparr>"

definition attach :: "'c \<Rightarrow> 'c CommandConnector \<Rightarrow> 'c CommandConnector" where
  "attach c x = x\<lparr>conn := Some c\<rparr>"

definition detach :: "'c CommandConnector \<Rightarrow> 'c CommandConnector" where
  "detach x = x\<lparr>conn := None\<rparr>"

definition not_connected :: goerr where
  "not_connected = ErrText ''soloist: not connected''"

definition ConnWrite :: "goerror \<Rightarrow> message \<Rightarrow> 'c CommandConnector \<Rightarrow> goerror \<times> 'c wire" where
  "ConnWrite answer raw x =
    (case conn x of None \<Rightarrow> (Some not_connected, []) | Some c \<Rightarrow> (answer, [(c, raw)]))"

definition Play :: "string \<Rightarrow> goerror \<Rightarrow> 'c CommandConnector \<Rightarrow> goerror \<times> 'c wire" where
  "Play uri answer x = ConnWrite answer (json_object (playCommand uri)) x"

definition sendSimple :: "string \<Rightarrow> goerror \<Rightarrow> 'c CommandConnector \<Rightarrow> goerror \<times> 'c wire" where
  "sendSimple command answer x = ConnWrite answer (json_object (simpleCommand command)) x"

definition Pause :: "goerror \<Rightarrow> 'c CommandConnector \<Rightarrow> goerror \<times> 'c wire" where
  "Pause = sendSimple ''pause''"

definition SkipNext :: "goerror \<Rightarrow> 'c CommandConnector \<Rightarrow> goerror \<times> 'c wire" where
  "SkipNext = sendSimple ''skip_next''"

definition SkipPrev :: "goerror \<Rightarrow> 'c CommandConnector \<Rightarrow> goerror \<times> 'c wire" where
  "SkipPrev = sendSimple ''skip_prev''"

definition SetVolume :: "int \<Rightarrow> goerror \<Rightarrow> 'c CommandConnector \<Rightarrow> goerror \<times> 'c wire" where
  "SetVolume volume answer x = ConnWrite answer (json_object (volumeCommand volume)) x"

section \<open>The interface of the command sink\<close>

datatype command = CmdPlay string | CmdPause | CmdSkipNext | CmdSkipPrev

text \<open>
  The four operations the listener calls, each taking the answer of the transport and the
  state of the sink. \<open>online\<close> says whether the sink can deliver; the laws: offline nothing
  is delivered and the call fails, online exactly one message is delivered, the message of
  that command, and the call returns the transport's answer.
\<close>

locale command_sender =
  fixes online :: "'s \<Rightarrow> bool"
    and play :: "string \<Rightarrow> goerror \<Rightarrow> 's \<Rightarrow> goerror \<times> 'm list"
    and pause :: "goerror \<Rightarrow> 's \<Rightarrow> goerror \<times> 'm list"
    and skip_next :: "goerror \<Rightarrow> 's \<Rightarrow> goerror \<times> 'm list"
    and skip_prev :: "goerror \<Rightarrow> 's \<Rightarrow> goerror \<times> 'm list"
    and text_of :: "'m \<Rightarrow> string"
    and encode :: "command \<Rightarrow> string"
  assumes offline: "\<not> online s \<Longrightarrow> fst (play u a s) \<noteq> None \<and> snd (play u a s) = []"
      "\<not> online s \<Longrightarrow> fst (pause a s) \<noteq> None \<and> snd (pause a s) = []"
      "\<not> online s \<Longrightarrow> fst (skip_next a s) \<noteq> None \<and> snd (skip_next a s) = []"
      "\<not> online s \<Longrightarrow> fst (skip_prev a s) \<noteq> None \<and> snd (skip_prev a s) = []"
    and online: "online s \<Longrightarrow> fst (play u a s) = a \<and> map text_of (snd (play u a s)) = [encode (CmdPlay u)]"
      "online s \<Longrightarrow> fst (pause a s) = a \<and> map text_of (snd (pause a s)) = [encode CmdPause]"
      "online s \<Longrightarrow> fst (skip_next a s) = a \<and> map text_of (snd (skip_next a s)) = [encode CmdSkipNext]"
      "online s \<Longrightarrow> fst (skip_prev a s) = a \<and> map text_of (snd (skip_prev a s)) = [encode CmdSkipPrev]"
begin

fun issue :: "command \<Rightarrow> goerror \<Rightarrow> 's \<Rightarrow> goerror \<times> 'm list" where
  "issue (CmdPlay u) = play u"
| "issue CmdPause = pause"
| "issue CmdSkipNext = skip_next"
| "issue CmdSkipPrev = skip_prev"

lemma issue_offline: "\<not> online s \<Longrightarrow> fst (issue c a s) \<noteq> None \<and> snd (issue c a s) = []"
  by (cases c) (simp_all add: offline)

lemma issue_online: "online s \<Longrightarrow> fst (issue c a s) = a \<and> map text_of (snd (issue c a s)) = [encode c]"
  by (cases c) (simp_all add: online)

text \<open>Commands issued one after the other while the sink does not change are delivered in
  order, all of them or none.\<close>

lemma issue_all:
  "concat (map (\<lambda>(c, a). map text_of (snd (issue c a s))) cs) = (if online s then map (encode \<circ> fst) cs else [])"
  by (induction cs) (auto simp: issue_online issue_offline)

end

fun encode_command :: "command \<Rightarrow> message" where
  "encode_command (CmdPlay u) = json_object (playCommand u)"
| "encode_command CmdPause = json_object (simpleCommand ''pause'')"
| "encode_command CmdSkipNext = json_object (simpleCommand ''skip_next'')"
| "encode_command CmdSkipPrev = json_object (simpleCommand ''skip_prev'')"

lemmas connector_ops =
  Play_def Pause_def SkipNext_def SkipPrev_def SetVolume_def sendSimple_def ConnWrite_def

interpretation connector_sender:
  command_sender "\<lambda>x. conn x \<noteq> None" Play Pause SkipNext SkipPrev snd encode_command
  by unfold_locales (auto simp: connector_ops)

text \<open>A command value names one of the four calls; the locale's dispatcher is this function.\<close>

fun send_command :: "command \<Rightarrow> goerror \<Rightarrow> 'c CommandConnector \<Rightarrow> goerror \<times> 'c wire" where
  "send_command (CmdPlay u) = Play u"
| "send_command CmdPause = Pause"
| "send_command CmdSkipNext = SkipNext"
| "send_command CmdSkipPrev = SkipPrev"

lemma send_command_issue: "send_command c = connector_sender.issue c"
  by (cases c) (simp_all only: send_command.simps connector_sender.issue.simps)

lemma send_write: "send_command c a x = ConnWrite a (encode_command c) x"
  by (cases c) (simp_all add: Play_def Pause_def SkipNext_def SkipPrev_def sendSimple_def)

section \<open>Commands read back\<close>

lemma foldl_from: "foldl f a p = b \<Longrightarrow> foldl f a (p @ q) = foldl f b q"
  by simp

lemma js_cap_fold: "js (foldl cap_step a s) = foldl j_step (js a) s"
proof (induction s arbitrary: a)
  case (Cons c s)
  have "js (cap_step a c) = j_step (js a) c" by (simp add: cap_step_def Let_def)
  with Cons show ?case by simp
qed simp

text \<open>The members of a text are those the collecting scan holds when it reaches its end.\<close>

lemma json_members_scan:
  assumes "foldl cap_step cap_init s = a" and "js a = (EndTop, [])"
  shows "json_members s = Some (jmems a)"
proof -
  have "foldl j_step (BeginValue, []) s = (EndTop, [])"
    using js_cap_fold [of cap_init s] assms by (simp add: cap_init_def)
  then show ?thesis using assms by (simp add: json_members_def json_valid_def j_space_def)
qed

text \<open>Decimal numbers as member values.\<close>

lemma digit_scan:
  assumes "is_digit c" "js a = (NumInt, [ObjectValue])"
  shows "cap_step a c = a\<lparr>jval := jval a @ [c]\<rparr>"
  using assms by (cases a) (simp add: cap_step_def mem_done_def key_char_def val_char_def in_number_def in_string_def)

lemma digits_scan:
  "list_all is_digit ds \<Longrightarrow> js a = (NumInt, [ObjectValue]) \<Longrightarrow>
     foldl cap_step a ds = a\<lparr>jval := jval a @ ds\<rparr>"
  by (induction ds arbitrary: a) (auto simp: digit_scan)

lemma nat_digits_is_digit: "list_all is_digit (nat_digits n)"
  using nat_digits_digits [of _ n] by (auto simp: list_all_iff is_digit_def)

lemma nat_digits_lead: "0 < n \<Longrightarrow> \<exists>c s. nat_digits n = c # s \<and> c \<noteq> CHR ''0''"
proof (induction n rule: nat_digits.induct)
  case (1 n)
  show ?case
  proof (cases "n < 10")
    case True
    then have "nat_digits n = [digit_char n]" by (subst nat_digits.simps) simp
    moreover have "digit_char n \<noteq> CHR ''0''"
    proof
      assume "digit_char n = CHR ''0''"
      then have "(of_char (digit_char n) :: nat) = 48" by simp
      then show False using of_char_digit_char [OF True] 1(2) by simp
    qed
    ultimately show ?thesis by simp
  next
    case False
    then have "0 < n div 10" by simp
    then obtain c s where "nat_digits (n div 10) = c # s" "c \<noteq> CHR ''0''" using 1(1) [OF False] by blast
    moreover have "nat_digits n = nat_digits (n div 10) @ [digit_char (n mod 10)]"
      using False by (subst nat_digits.simps) simp
    ultimately show ?thesis by simp
  qed
qed

lemma j_begin_digit: "is_digit c \<Longrightarrow> c \<noteq> CHR ''0'' \<Longrightarrow> j_begin_value stk c = (NumInt, stk)"
proof -
  assume d: "is_digit c" and z: "c \<noteq> CHR ''0''"
  have "c \<notin> {CHR '' '', CHR ''{'', CHR ''['', CHR ''\"'', CHR ''-'', CHR ''t'', CHR ''f'', CHR ''n''}"
    using d by (auto simp: is_digit_def)
  moreover have "\<not> j_space c" using d by (auto simp: is_digit_def j_space_def)
  ultimately show ?thesis using d z by (simp add: j_begin_value_def)
qed

lemma cap_step_value:
  assumes "js a = (st, [ObjectValue])" and "j_step (st, [ObjectValue]) c = (st', [ObjectValue])"
    and "st = BeginValue \<and> st' \<noteq> BeginValue \<or> in_number st \<and> in_number st'"
  shows "cap_step a c = a\<lparr>js := (st', [ObjectValue]), jval := jval a @ [c]\<rparr>"
proof -
  have "val_char (st, [ObjectValue]) (st', [ObjectValue])"
    using assms(3) by (elim disjE) (simp_all add: val_char_def)
  then show ?thesis using assms(1,2) by (cases a) (simp add: cap_step_def mem_done_def key_char_def)
qed

lemma lead_scan:
  assumes "js a = (st, [ObjectValue])" "st = BeginValue \<or> st = Neg" "is_digit c" "c \<noteq> CHR ''0''"
  shows "cap_step a c = a\<lparr>js := (NumInt, [ObjectValue]), jval := jval a @ [c]\<rparr>"
proof (rule cap_step_value [OF assms(1)])
  show "j_step (st, [ObjectValue]) c = (NumInt, [ObjectValue])"
    using assms by (elim disjE) (simp_all add: j_begin_digit)
  show "st = BeginValue \<and> NumInt \<noteq> BeginValue \<or> in_number st \<and> in_number NumInt"
    using assms(2) by (auto simp: in_number_def)
qed

lemma positive_scan:
  assumes "js a = (st, [ObjectValue])" "st = BeginValue \<or> st = Neg" "0 < n"
  shows "foldl cap_step a (nat_digits n) = a\<lparr>js := (NumInt, [ObjectValue]), jval := jval a @ nat_digits n\<rparr>"
proof -
  obtain c s where cs: "nat_digits n = c # s" "c \<noteq> CHR ''0''" using nat_digits_lead [OF assms(3)] by auto
  then have "is_digit c" "list_all is_digit s" using nat_digits_is_digit [of n] by auto
  then show ?thesis using lead_scan [OF assms(1,2)] cs by (simp add: digits_scan)
qed

lemma number_scan:
  assumes "js a = (BeginValue, [ObjectValue])"
  shows "\<exists>st. (st = NumZero \<or> st = NumInt) \<and>
    foldl cap_step a (Itoa v) = a\<lparr>js := (st, [ObjectValue]), jval := jval a @ Itoa v\<rparr>"
proof -
  consider "v < 0" | "v = 0" | "0 < v" by linarith
  then show ?thesis
  proof cases
    case 1
    let ?b = "a\<lparr>js := (Neg, [ObjectValue]), jval := jval a @ ''-''\<rparr>"
    have "cap_step a CHR ''-'' = ?b"
      by (rule cap_step_value [OF assms]) (simp_all add: j_begin_value_def j_space_def)
    moreover have "foldl cap_step ?b (nat_digits (nat (- v)))
        = ?b\<lparr>js := (NumInt, [ObjectValue]), jval := jval ?b @ nat_digits (nat (- v))\<rparr>"
      using 1 by (intro positive_scan [of ?b Neg]) simp_all
    ultimately show ?thesis using 1 by (intro exI [of _ NumInt]) (simp add: Itoa_def)
  next
    case 2
    have "Itoa 0 = ''0''" by code_simp
    moreover have "cap_step a CHR ''0'' = a\<lparr>js := (NumZero, [ObjectValue]), jval := jval a @ ''0''\<rparr>"
      by (rule cap_step_value [OF assms]) (simp_all add: j_begin_value_def j_space_def)
    ultimately show ?thesis using 2 by (intro exI [of _ NumZero]) simp
  next
    case 3
    then show ?thesis using positive_scan [OF assms, of "nat v"]
      by (intro exI [of _ NumInt]) (simp add: Itoa_def)
  qed
qed

text \<open>The three kinds of command, member by member.\<close>

abbreviation (input) head_text :: "string \<Rightarrow> string" where
  "head_text cmd \<equiv> CHR ''{'' # json_string ''type'' @ CHR '':'' # json_string ''command'' @ CHR '','' #
      json_string ''command'' @ CHR '':'' # json_string cmd"

definition head_state :: "string \<Rightarrow> string \<Rightarrow> string \<Rightarrow> jstate \<Rightarrow> jcap" where
  "head_state cmd key val st =
    \<lparr>js = (st, [ObjectValue]), jkey = json_string key, jval = val,
     jmems = [(json_string ''type'', json_string ''command''), (json_string ''command'', json_string cmd)]\<rparr>"

lemma play_head:
  "foldl cap_step cap_init (head_text ''play'' @ CHR '','' # json_string ''uri'' @ '':\"'')
   = head_state ''play'' ''uri'' ''\"'' InString"
  by code_simp

lemma volume_head:
  "foldl cap_step cap_init (head_text ''set_volume'' @ CHR '','' # json_string ''volume'' @ '':'')
   = head_state ''set_volume'' ''volume'' [] BeginValue"
  by code_simp

lemma end_object:
  assumes "js a = (st, [ObjectValue])" and "st = EndValue \<or> st = NumZero \<or> st = NumInt"
  shows "cap_step a CHR ''}'' = \<lparr>js = (EndTop, []), jkey = [], jval = [], jmems = jmems a @ [(jkey a, jval a)]\<rparr>"
proof -
  have "j_end_value [ObjectValue] CHR ''}'' = (EndTop, [])"
    by (simp add: j_space_def j_pop_def)
  moreover have "\<not> is_digit CHR ''}''" by (simp add: is_digit_def)
  ultimately have "j_step (js a) CHR ''}'' = (EndTop, [])"
    using assms by (elim disjE) (simp_all add: j_num0_def del: j_end_value.simps)
  then show ?thesis using assms(1) by (simp add: cap_step_def mem_done_def)
qed

lemma play_members:
  "json_members (json_object (playCommand uri)) =
    Some [(json_string ''type'', json_string ''command''), (json_string ''command'', json_string ''play''),
          (json_string ''uri'', json_string uri)]"
proof -
  let ?h = "head_state ''play'' ''uri'' ''\"'' InString"
  let ?e = "?h\<lparr>js := (EndValue, [ObjectValue]), jval := jval ?h @ json_body uri @ [CHR ''\"'']\<rparr>"
  have "json_object (playCommand uri)
      = (head_text ''play'' @ CHR '','' # json_string ''uri'' @ '':\"'') @ json_body uri @ CHR ''\"'' # ''}''"
    by (simp add: json_object_def playCommand_def json_member_def json_string_def)
  then have "foldl cap_step cap_init (json_object (playCommand uri)) = foldl cap_step ?h (json_body uri @ CHR ''\"'' # ''}'')"
    using foldl_from [OF play_head] by metis
  also have "\<dots> = foldl cap_step ?e ''}''"
    by (rule cap_scan_string) (simp add: head_state_def)
  also have "\<dots> = cap_step ?e CHR ''}''" by simp
  finally have f: "foldl cap_step cap_init (json_object (playCommand uri)) = cap_step ?e CHR ''}''" .
  have "cap_step ?e CHR ''}'' = \<lparr>js = (EndTop, []), jkey = [], jval = [], jmems = jmems ?e @ [(jkey ?e, jval ?e)]\<rparr>"
    by (rule end_object [of _ EndValue]) simp_all
  from json_members_scan [OF f] this show ?thesis
    by (simp add: head_state_def json_string_def)
qed

lemma volume_members:
  "json_members (json_object (volumeCommand v)) =
    Some [(json_string ''type'', json_string ''command''), (json_string ''command'', json_string ''set_volume''),
          (json_string ''volume'', Itoa v)]"
proof -
  let ?h = "head_state ''set_volume'' ''volume'' [] BeginValue"
  obtain st where st: "st = NumZero \<or> st = NumInt"
      "foldl cap_step ?h (Itoa v) = ?h\<lparr>js := (st, [ObjectValue]), jval := jval ?h @ Itoa v\<rparr>"
    using number_scan [of ?h v] by (auto simp: head_state_def)
  let ?e = "?h\<lparr>js := (st, [ObjectValue]), jval := jval ?h @ Itoa v\<rparr>"
  have "json_object (volumeCommand v)
      = (head_text ''set_volume'' @ CHR '','' # json_string ''volume'' @ '':'') @ Itoa v @ ''}''"
    by (simp add: json_object_def volumeCommand_def json_member_def)
  then have "foldl cap_step cap_init (json_object (volumeCommand v)) = foldl cap_step ?h (Itoa v @ ''}'')"
    using foldl_from [OF volume_head] by metis
  also have "\<dots> = cap_step ?e CHR ''}''" using foldl_from [OF st(2), of "''}''"] by simp
  finally have f: "foldl cap_step cap_init (json_object (volumeCommand v)) = cap_step ?e CHR ''}''" .
  have "cap_step ?e CHR ''}'' = \<lparr>js = (EndTop, []), jkey = [], jval = [], jmems = jmems ?e @ [(jkey ?e, jval ?e)]\<rparr>"
    using st(1) by (intro end_object [of _ st]) auto
  from json_members_scan [OF f] this show ?thesis
    by (simp add: head_state_def)
qed

lemma simple_members:
  "cmd \<in> {''pause'', ''skip_next'', ''skip_prev''} \<Longrightarrow>
    json_members (json_object (simpleCommand cmd)) =
      Some [(json_string ''type'', json_string ''command''), (json_string ''command'', json_string cmd)]"
  by (elim insertE; simp; code_simp)

text \<open>C31: no argument can break out of its command: whatever bytes the Spotify URI holds (quotes,
  control characters, invalid UTF-8), the play message is one JSON object with exactly the
  three expected members, and the reader gets back the URI itself, with invalid bytes
  replaced; likewise the volume message carries exactly the volume, for every 64-bit value.\<close>

theorem commands_decode:
  "json_members (json_object (playCommand uri)) =
     Some [(json_string ''type'', json_string ''command''), (json_string ''command'', json_string ''play''),
           (json_string ''uri'', json_string uri)]
   \<and> unmarshal_string (json_string uri) = Some (coerce_utf8 uri)
   \<and> json_members (json_object (volumeCommand (sint (w :: 64 word)))) =
     Some [(json_string ''type'', json_string ''command''), (json_string ''command'', json_string ''set_volume''),
           (json_string ''volume'', Itoa (sint w))]
   \<and> Atoi (Itoa (sint w)) = Some (sint w)"
proof -
  have "- (2 ^ 63) \<le> sint w" "sint w < 2 ^ 63"
    using sint_ge [of w] sint_lt [of w] by simp_all
  then show ?thesis
    by (simp only: play_members volume_members unmarshal_json_string Atoi_Itoa)
qed

section \<open>Writes happen only while attached\<close>

text \<open>The calls of the connector in the order the mutex serialises them.\<close>

datatype 'c conn_call =
    CallAttach 'c | CallDetach | CallSend command goerror | CallVolume int goerror

fun conn_step :: "'c conn_call \<Rightarrow> 'c CommandConnector \<Rightarrow> goerror \<times> 'c wire \<times> 'c CommandConnector" where
  "conn_step (CallAttach c) x = (None, [], attach c x)"
| "conn_step CallDetach x = (None, [], detach x)"
| "conn_step (CallSend cmd a) x = (let (e, w) = send_command cmd a x in (e, w, x))"
| "conn_step (CallVolume v a) x = (let (e, w) = SetVolume v a x in (e, w, x))"

fun conn_run :: "'c conn_call list \<Rightarrow> 'c CommandConnector \<Rightarrow> goerror list \<times> 'c wire" where
  "conn_run [] x = ([], [])"
| "conn_run (k # ks) x =
    (let (e, w, y) = conn_step k x; (es, ws) = conn_run ks y in (e # es, w @ ws))"

text \<open>The reference: a call sends its message on the connection last attached and not yet
  detached, if any.\<close>

fun sends :: "'c conn_call \<Rightarrow> message list" where
  "sends (CallSend cmd a) = [encode_command cmd]"
| "sends (CallVolume v a) = [json_object (volumeCommand v)]"
| "sends _ = []"

fun attached_after :: "'c conn_call list \<Rightarrow> 'c option \<Rightarrow> 'c option" where
  "attached_after [] c = c"
| "attached_after (CallAttach d # ks) c = attached_after ks (Some d)"
| "attached_after (CallDetach # ks) c = attached_after ks None"
| "attached_after (k # ks) c = attached_after ks c"

definition expected :: "'c option \<Rightarrow> 'c conn_call \<Rightarrow> goerror \<times> 'c wire" where
  "expected c k =
    (case sends k of
       [] \<Rightarrow> (None, [])
     | m # _ \<Rightarrow>
       (case c of
          None \<Rightarrow> (Some not_connected, [])
        | Some d \<Rightarrow> (case k of CallSend cmd a \<Rightarrow> a | CallVolume v a \<Rightarrow> a | _ \<Rightarrow> None, [(d, m)])))"

lemma conn_step_expected:
  "conn_step k x = (e, w, y) \<Longrightarrow> (e, w) = expected (conn x) k \<and> conn y = attached_after [k] (conn x)"
proof (cases k)
  case (CallSend cmd a)
  assume "conn_step k x = (e, w, y)"
  then show ?thesis
    using CallSend by (auto simp: send_write expected_def ConnWrite_def split: option.splits)
qed (auto simp: expected_def connector_ops attach_def detach_def split: option.splits)

lemma attached_after_step: "attached_after (k # ks) c = attached_after ks (attached_after [k] c)"
  by (cases k) auto

text \<open>What call \<open>i\<close> of a sequence does.\<close>

definition call_at :: "'c conn_call list \<Rightarrow> 'c option \<Rightarrow> nat \<Rightarrow> goerror \<times> 'c wire" where
  "call_at ks c i = expected (attached_after (take i ks) c) (ks ! i)"

lemma call_at_Cons: "call_at (k # ks) c (Suc i) = call_at ks (attached_after [k] c) i"
  by (simp add: call_at_def attached_after_step [of k "take i ks"])

lemma conn_run_calls:
  "conn_run ks x =
    (map (\<lambda>i. fst (call_at ks (conn x) i)) [0..<length ks],
     concat (map (\<lambda>i. snd (call_at ks (conn x) i)) [0..<length ks]))"
proof (induction ks arbitrary: x)
  case (Cons k ks)
  obtain e w y where s: "conn_step k x = (e, w, y)" by (cases "conn_step k x")
  have y: "attached_after [k] (conn x) = conn y" and ew: "call_at (k # ks) (conn x) 0 = (e, w)"
    using conn_step_expected [OF s] by (simp_all add: call_at_def)
  have up: "[0..<length (k # ks)] = 0 # map Suc [0..<length ks]"
    by (simp add: upt_conv_Cons map_Suc_upt del: upt_Suc)
  have "conn_run (k # ks) x =
      (e # map (\<lambda>i. fst (call_at ks (conn y) i)) [0..<length ks],
       w @ concat (map (\<lambda>i. snd (call_at ks (conn y) i)) [0..<length ks]))"
    by (simp add: s Cons.IH)
  then show ?case
    unfolding up by (simp only: list.map map_map comp_def call_at_Cons y ew concat.simps fst_conv snd_conv)
qed simp


end
