(* ===== verification/Backoff.thy ===== *)
theory Backoff imports Prelude begin

text \<open>
  The exponential backoff shared by every retry loop of the shim. The repository has two
  copies of \<open>NextBackoff\<close> (\<open>internal/audio/pulse.go\<close>, used by the PulseAudio supervisor, the
  SSE listener and the recorder; \<open>internal/soloist/pair.go\<close>, used by pairing and by the
  Soloist supervisor) and four of the cancellable sleep. The locale \<open>backoff_policy\<close> states
  what the loops rely on; both copies are interpreted in it.
\<close>

section \<open>The code\<close>

definition audio_NextBackoff :: "duration \<Rightarrow> duration \<Rightarrow> duration" where
  "audio_NextBackoff current maxb =
    (if sint current \<ge> sint maxb then maxb
     else let nxt = current * 2
          in if sint nxt \<le> 0 \<or> sint nxt > sint maxb then maxb else nxt)"

definition soloist_NextBackoff :: "duration \<Rightarrow> duration \<Rightarrow> duration" where
  "soloist_NextBackoff current maxb =
    (if sint current \<ge> sint maxb then maxb
     else let nxt = current * 2
          in if sint nxt \<le> 0 \<or> sint nxt > sint maxb then maxb else nxt)"

text \<open>
  A sleep ends because its timer fired or because the context was cancelled; which of the
  two happened is an input of the model.
\<close>

datatype wake = TimerFired | CtxDone

definition audio_sleep :: "wake \<Rightarrow> bool" where
  "audio_sleep w = (case w of CtxDone \<Rightarrow> False | TimerFired \<Rightarrow> True)"

definition soloist_sleep :: "wake \<Rightarrow> bool" where
  "soloist_sleep w = (case w of CtxDone \<Rightarrow> False | TimerFired \<Rightarrow> True)"

definition sse_sleep :: "wake \<Rightarrow> bool" where
  "sse_sleep w = (case w of CtxDone \<Rightarrow> False | TimerFired \<Rightarrow> True)"

definition recorderSleep :: "wake \<Rightarrow> bool" where
  "recorderSleep w = (case w of CtxDone \<Rightarrow> False | TimerFired \<Rightarrow> True)"

lemmas sleep_defs [eval_simps] =
  audio_sleep_def soloist_sleep_def sse_sleep_def recorderSleep_def

section \<open>The contract of a backoff policy\<close>

text \<open>The waits of a retry loop: the \<open>n\<close>-th retry waits \<open>schedule next m c n\<close>.\<close>

definition schedule :: "(duration \<Rightarrow> duration \<Rightarrow> duration) \<Rightarrow> duration \<Rightarrow> duration \<Rightarrow> nat \<Rightarrow> duration" where
  "schedule nextb m c n = ((\<lambda>b. nextb b m) ^^ n) c"

lemma schedule_0 [simp]: "schedule nextb m c 0 = c"
  by (simp add: schedule_def)

lemma schedule_Suc: "schedule nextb m c (Suc n) = nextb (schedule nextb m c n) m"
  by (simp add: schedule_def)

lemma schedule_Suc2: "schedule nextb m c (Suc n) = schedule nextb m (nextb c m) n"
  by (simp add: schedule_def funpow_Suc_right del: funpow.simps)

locale backoff_policy =
  fixes nextb :: "duration \<Rightarrow> duration \<Rightarrow> duration"
  assumes doubles: "0 < sint c \<Longrightarrow> sint c < sint m \<Longrightarrow> sint (nextb c m) = min (2 * sint c) (sint m)"
    and capped: "sint m \<le> sint c \<Longrightarrow> nextb c m = m"
begin

lemma step_bounds:
  "0 < sint c \<Longrightarrow> sint c \<le> sint m \<Longrightarrow> sint c \<le> sint (nextb c m) \<and> sint (nextb c m) \<le> sint m"
  using doubles [of c m] capped [of m c] by (cases "sint c = sint m") auto

lemma closed_form:
  assumes "0 < sint c" and "sint c \<le> sint m"
  shows "sint (schedule nextb m c n) = min (2 ^ n * sint c) (sint m)"
proof (induction n)
  case 0
  then show ?case using assms by simp
next
  case (Suc n)
  let ?s = "schedule nextb m c n"
  have pos: "0 < sint ?s" using Suc.IH assms by simp
  show ?case
  proof (cases "sint ?s < sint m")
    case True
    with doubles [OF pos True] Suc.IH show ?thesis
      by (simp add: schedule_Suc min_def split: if_splits)
  next
    case False
    then have "schedule nextb m c (Suc n) = m" by (simp add: schedule_Suc capped)
    moreover have "sint m \<le> 2 ^ n * sint c" using False Suc.IH by simp
    then have "sint m \<le> 2 ^ Suc n * sint c" using assms by (simp add: mult.assoc)
    ultimately show ?thesis by simp
  qed
qed

lemma schedule_capped:
  assumes "sint m \<le> sint c" and "0 < n"
  shows "schedule nextb m c n = m"
  using \<open>0 < n\<close>
proof (induction n)
  case (Suc n)
  then show ?case using assms(1) by (cases n) (auto simp: schedule_Suc capped)
qed simp

lemma reaches_cap:
  assumes "0 < sint c" and "sint m \<le> 2 ^ n * sint c" and "sint c \<le> sint m"
  shows "schedule nextb m c n = m"
  using closed_form [of c m n] assms by (simp add: signed_word_eqI)

end

section \<open>Both copies satisfy the contract\<close>

lemma audio_doubles:
  assumes "0 < sint c" and "sint c < sint m"
  shows "sint (audio_NextBackoff c m) = min (2 * sint c) (sint m)"
proof (cases "sint c < 2 ^ 62")
  case True
  then have "sint (c * 2) = 2 * sint c"
    using assms(1) by (intro sint_double_no_overflow) auto
  then show ?thesis using assms by (auto simp: audio_NextBackoff_def Let_def)
next
  case False
  then have "sint (c * 2) < 0" by (intro sint_double_overflow) simp
  moreover have "sint m < 2 ^ 63" using sint_lt [of m] by simp
  ultimately show ?thesis using assms False by (auto simp: audio_NextBackoff_def Let_def)
qed

lemma NextBackoff_copies_agree: "soloist_NextBackoff = audio_NextBackoff"
  by (simp add: fun_eq_iff audio_NextBackoff_def soloist_NextBackoff_def)

interpretation audio_bo: backoff_policy audio_NextBackoff
  by unfold_locales (auto simp: audio_doubles, simp add: audio_NextBackoff_def)

interpretation soloist_bo: backoff_policy soloist_NextBackoff
  unfolding NextBackoff_copies_agree by unfold_locales

text \<open>For a backoff between zero and its cap, the wait before the \<open>n\<close>-th retry is the doubled
  start, cut at the cap, in both copies of the code: no 64-bit overflow ever shows.\<close>

theorem backoff_closed_form:
  assumes "0 < sint c" and "sint c \<le> sint m"
  shows "sint (schedule audio_NextBackoff m c n) = min (2 ^ n * sint c) (sint m)
    \<and> sint (schedule soloist_NextBackoff m c n) = min (2 ^ n * sint c) (sint m)"
  using audio_bo.closed_form [OF assms] soloist_bo.closed_form [OF assms] by simp

lemma backoff_closed_form_witness:
  "sint (schedule audio_NextBackoff (30 * second) (1 * second) 100) = 30000000000
    \<and> sint (schedule soloist_NextBackoff (30 * second) (1 * second) 100) = 30000000000"
  using backoff_closed_form [of "1 * second" "30 * second" 100] by simp

end
