(* ===== verification/Listener.thy ===== *)
theory Listener imports Connector Backoff begin

text \<open>
  \<open>internal/sselistener/listener.go\<close>: the consumer of Teddycloud's server-sent events. The
  response body is split into lines as \<open>bufio.Scanner\<close> does, with its token limit; a line
  updates the pending event; an empty line dispatches it to the command sink. The value of an
  event is unwrapped from JSON. The loop's \<open>select\<close> before each line and the reconnect loop
  around a subscription take what the context, the timers and the network did as arguments.
\<close>

section \<open>Configuration\<close>

record ListenerConf =
  ListenerURL :: string
  ListenerBackoff :: duration
  ListenerMaxBackoff :: duration
  IDLETimeout :: duration

definition listener_backoff :: "ListenerConf \<Rightarrow> duration" where
  "listener_backoff l = (if sint (ListenerBackoff l) > 0 then ListenerBackoff l else 1 * second)"

definition listener_maxBackoff :: "ListenerConf \<Rightarrow> duration" where
  "listener_maxBackoff l = (if sint (ListenerMaxBackoff l) > 0 then ListenerMaxBackoff l else 30 * second)"

definition idleTimeout :: "ListenerConf \<Rightarrow> duration" where
  "idleTimeout l = (if sint (IDLETimeout l) > 0 then IDLETimeout l else 2 * minute)"

definition sseURL :: "ListenerConf \<Rightarrow> string" where
  "sseURL l = TrimRight (ListenerURL l) CHR ''/'' @ ''/api/sse''"

section \<open>Lines\<close>

definition max_token :: nat where "max_token = 65536"

definition drop_cr :: "string \<Rightarrow> string" where
  "drop_cr s = (if s \<noteq> [] \<and> last s = CHR 0x0D then butlast s else s)"

text \<open>The first raw line and what follows it; \<open>None\<close> when there is no newline.\<close>

fun split_line :: "string \<Rightarrow> string \<times> string option" where
  "split_line [] = ([], None)"
| "split_line (c # s) =
    (if c = CHR 0x0A then ([], Some s) else (let (l, r) = split_line s in (c # l, r)))"

lemma split_line_shorter: "split_line s = (l, Some r) \<Longrightarrow> length r < length s"
  by (induction s arbitrary: l) (fastforce split: if_splits prod.splits)+

text \<open>The tokens of the scanner and whether it stopped at a token that does not fit its buffer.\<close>

function scan_lines :: "string \<Rightarrow> string list \<times> bool" where
  "scan_lines body =
    (if body = [] then ([], False)
     else case split_line body of
       (l, Some r) \<Rightarrow>
         (if length l < max_token then (let (ls, long) = scan_lines r in (drop_cr l # ls, long)) else ([], True))
     | (l, None) \<Rightarrow> (if length l < max_token then ([drop_cr l], False) else ([], True)))"
  by pat_completeness auto
termination
  by (relation "measure length") (auto dest!: sym [of "(_, _)"] split_line_shorter)

declare scan_lines.simps [simp del]

section \<open>Values\<close>

definition is_data_key :: "string \<Rightarrow> bool" where
  "is_data_key raw = (case unmarshal_string raw of None \<Rightarrow> False | Some k \<Rightarrow> ToLower k = ''data'')"

text \<open>\<open>wrappedValue\<close>: the last member named \<open>data\<close>, as a string when it is one.\<close>

definition wrappedValue :: "string \<Rightarrow> string" where
  "wrappedValue data =
    (let s = TrimSpace data
     in if s = [] \<or> \<not> HasPrefix s ''{'' then s
        else case json_members s of
          None \<Rightarrow> s
        | Some ms \<Rightarrow>
           (let raw = (case find (\<lambda>m. is_data_key (fst m)) (rev ms) of None \<Rightarrow> [] | Some m \<Rightarrow> snd m)
            in case unmarshal_string raw of Some v \<Rightarrow> v | None \<Rightarrow> raw))"

section \<open>Dispatch\<close>

definition dispatch :: "string \<Rightarrow> string \<Rightarrow> command list" where
  "dispatch eventName data =
    (if eventName = ''TagValid'' then [CmdPlay []]
     else if eventName = ''playback'' then
       (if wrappedValue data = ''stopped'' then [CmdPause] else [])
     else if eventName = ''knock'' then
       (if wrappedValue data = ''forward'' then [CmdSkipNext]
        else if wrappedValue data = ''backward'' then [CmdSkipPrev] else [])
     else [])"

section \<open>The read loop\<close>

record sse_state =
  eventName :: string
  pending :: string

definition sse_start :: sse_state where
  "sse_start = \<lparr>eventName = [], pending = []\<rparr>"

definition sse_line :: "sse_state \<Rightarrow> string \<Rightarrow> sse_state \<times> command list" where
  "sse_line st line =
    (if line = [] then
       (sse_start, if eventName st \<noteq> [] then dispatch (eventName st) (pending st) else [])
     else if HasPrefix line ''event:'' then
       (st\<lparr>eventName := TrimSpace (TrimPrefix line ''event:'')\<rparr>, [])
     else if HasPrefix line ''data:'' then
       (st\<lparr>pending := pending st @ TrimSpace (TrimPrefix line ''data:'')\<rparr>, [])
     else (st, []))"

definition errIdle :: goerr where "errIdle = ErrSentinel ''sse stream idle''"
definition io_EOF :: goerr where "io_EOF = ErrSentinel ''EOF''"

text \<open>What the non-blocking \<open>select\<close> at the top of the loop found.\<close>

datatype poll = PollNone | PollCtx | PollIdle

text \<open>
  The commands issued and the error returned; \<open>None\<close> while the loop waits for more input.
  \<open>end_err\<close> is the error of the scanner once it has no more lines.
\<close>

fun read_lines :: "poll list \<Rightarrow> string list \<Rightarrow> goerror \<Rightarrow> sse_state \<Rightarrow> command list \<times> goerror" where
  "read_lines [] ls end_err st = ([], None)"
| "read_lines (PollCtx # ps) ls end_err st = ([], Some ErrCanceled)"
| "read_lines (PollIdle # ps) ls end_err st = ([], Some errIdle)"
| "read_lines (PollNone # ps) [] end_err st =
    ([], Some (case end_err of Some e \<Rightarrow> e | None \<Rightarrow> io_EOF))"
| "read_lines (PollNone # ps) (l # ls) end_err st =
    (let (st', cs) = sse_line st l; (cs', r) = read_lines ps ls end_err st' in (cs @ cs', r))"

definition errTooLong :: goerr where "errTooLong = ErrSentinel ''bufio.Scanner: token too long''"

definition readLoop :: "poll list \<Rightarrow> string \<Rightarrow> goerror \<Rightarrow> command list \<times> goerror" where
  "readLoop ps body body_err =
    (let (ls, long) = scan_lines body
     in read_lines ps ls (if long then Some errTooLong else body_err) sse_start)"

section \<open>Subscriptions\<close>

text \<open>One attempt to subscribe: the request fails, the status is not 200, or a body follows.\<close>

datatype sse_response =
    RequestError goerr
  | BadStatus string
  | Body "poll list" string goerror

text \<open>\<open>subscribeOnce\<close> with \<open>consume\<close>: the context may win over the read loop's result.\<close>

definition subscribeOnce :: "bool \<Rightarrow> sse_response \<Rightarrow> command list \<times> goerror" where
  "subscribeOnce ctx_first r =
    (case r of
       RequestError e \<Rightarrow> ([], Some e)
     | BadStatus st \<Rightarrow> ([], Some (ErrText (''sselistener: unexpected status '' @ st)))
     | Body ps body e \<Rightarrow>
        (let (cs, res) = readLoop ps body e in (cs, if ctx_first then Some ErrCanceled else res)))"

text \<open>
  One turn of \<open>Run\<close>: whether the context was cancelled before, after the subscription, and how
  the wait ended. The result lists the commands and the waits, and whether \<open>Run\<close> returned.
\<close>

record turn =
  cancelled_before :: bool
  ctx_wins :: bool
  answer :: sse_response
  cancelled_after :: bool
  waited :: wake

fun listener_run :: "ListenerConf \<Rightarrow> turn list \<Rightarrow> duration \<Rightarrow> command list \<times> duration list \<times> bool" where
  "listener_run l [] backoff = ([], [], False)"
| "listener_run l (t # ts) backoff =
    (if cancelled_before t then ([], [], True)
     else let cs = fst (subscribeOnce (ctx_wins t) (answer t))
          in if cancelled_after t then (cs, [], True)
             else if \<not> sse_sleep (waited t) then (cs, [backoff], True)
             else (let (cs', ws, r) = listener_run l ts (audio_NextBackoff backoff (listener_maxBackoff l))
                   in (cs @ cs', backoff # ws, r)))"

definition Run_listener :: "ListenerConf \<Rightarrow> turn list \<Rightarrow> command list \<times> duration list \<times> bool" where
  "Run_listener l ts = listener_run l ts (listener_backoff l)"

text \<open>\<open>send\<close> forwards a command and swallows its error: the messages of a list of commands.\<close>

definition send_all :: "command list \<Rightarrow> (command \<Rightarrow> goerror) \<Rightarrow> 'c CommandConnector \<Rightarrow> 'c wire" where
  "send_all cs ans x = concat (map (\<lambda>c. snd (send_command c (ans c) x)) cs)"

section \<open>What a frame means\<close>

text \<open>The frame Teddycloud sends for an event, with the text between the value's quotes.\<close>

definition sse_data :: "string \<Rightarrow> string \<Rightarrow> string" where
  "sse_data name v = ''{ \"type\":\"'' @ name @ ''\", \"data\":\"'' @ v @ ''\" }''"

definition sse_frame :: "string \<Rightarrow> string \<Rightarrow> string" where
  "sse_frame name v = ''event: '' @ name @ CHR 0x0A # ''data: '' @ sse_data name v @ [CHR 0x0A, CHR 0x0A]"

text \<open>The mapping of events to commands, as the documentation states it.\<close>

definition event_commands :: "string \<Rightarrow> string \<Rightarrow> command list" where
  "event_commands name v =
    (if name = ''TagValid'' then [CmdPlay []]
     else if name = ''playback'' \<and> v = ''stopped'' then [CmdPause]
     else if name = ''knock'' \<and> v = ''forward'' then [CmdSkipNext]
     else if name = ''knock'' \<and> v = ''backward'' then [CmdSkipPrev] else [])"

lemma cap_scan_inside:
  assumes "js a = (InString, [ObjectValue])" and "inside u"
  shows "foldl cap_step a (u @ CHR ''\"'' # r)
    = foldl cap_step (a\<lparr>js := (EndValue, [ObjectValue]), jval := jval a @ u @ [CHR ''\"'']\<rparr>) r"
  using assms by (simp add: inside_def cap_step_string in_string_def)

lemma type_head:
  "foldl cap_step cap_init ''{ \"type\":\"'' =
    \<lparr>js = (InString, [ObjectValue]), jkey = json_string ''type'', jval = ''\"'', jmems = []\<rparr>"
  by code_simp

lemma data_head:
  "foldl cap_step \<lparr>js = (EndValue, [ObjectValue]), jkey = k, jval = v, jmems = m\<rparr> '', \"data\":\"'' =
    \<lparr>js = (InString, [ObjectValue]), jkey = json_string ''data'', jval = ''\"'', jmems = m @ [(k, v)]\<rparr>"
  by code_simp

lemma data_tail:
  "foldl cap_step \<lparr>js = (EndValue, [ObjectValue]), jkey = k, jval = v, jmems = m\<rparr> '' }'' =
    \<lparr>js = (EndTop, []), jkey = [], jval = [], jmems = m @ [(k, v)]\<rparr>"
  by code_simp

lemma sse_data_members:
  assumes "inside name" and "inside v"
  shows "json_members (sse_data name v) =
    Some [(json_string ''type'', CHR ''\"'' # name @ [CHR ''\"'']), (json_string ''data'', CHR ''\"'' # v @ [CHR ''\"''])]"
proof -
  let ?a = "\<lparr>js = (InString, [ObjectValue]), jkey = json_string ''type'', jval = ''\"'', jmems = []\<rparr>"
  let ?b = "\<lparr>js = (EndValue, [ObjectValue]), jkey = json_string ''type'', jval = CHR ''\"'' # name @ [CHR ''\"''], jmems = []\<rparr>"
  let ?c = "\<lparr>js = (InString, [ObjectValue]), jkey = json_string ''data'', jval = ''\"'',
      jmems = [(json_string ''type'', CHR ''\"'' # name @ [CHR ''\"''])]\<rparr>"
  let ?d = "?c\<lparr>js := (EndValue, [ObjectValue]), jval := CHR ''\"'' # v @ [CHR ''\"'']\<rparr>"
  have "sse_data name v = ''{ \"type\":\"'' @ (name @ CHR ''\"'' # ('', \"data\":\"'' @ (v @ CHR ''\"'' # '' }'')))"
    by (simp add: sse_data_def)
  then have "foldl cap_step cap_init (sse_data name v)
      = foldl cap_step ?a (name @ CHR ''\"'' # ('', \"data\":\"'' @ (v @ CHR ''\"'' # '' }'')))"
    using foldl_from [OF type_head] by metis
  also have "\<dots> = foldl cap_step ?b ('', \"data\":\"'' @ (v @ CHR ''\"'' # '' }''))"
    by (subst cap_scan_inside [OF _ assms(1)]) simp_all
  also have "\<dots> = foldl cap_step ?c (v @ CHR ''\"'' # '' }'')"
    using foldl_from [OF data_head] by (metis append_Nil)
  also have "\<dots> = foldl cap_step ?d '' }''"
    by (subst cap_scan_inside [OF _ assms(2)]) simp_all
  finally have f: "foldl cap_step cap_init (sse_data name v) = foldl cap_step ?d '' }''" .
  show ?thesis using json_members_scan [OF f] data_tail by simp
qed

text \<open>Plain text between quotes: printable ASCII without quotes and backslashes.\<close>

definition plain_char :: "char \<Rightarrow> bool" where
  "plain_char c \<longleftrightarrow> 32 \<le> code c \<and> code c < 128 \<and> c \<noteq> CHR ''\"'' \<and> c \<noteq> CHR 0x5C"

lemma inside_plain_text: "list_all plain_char v \<Longrightarrow> inside v"
proof (induction v)
  case (Cons c v)
  then have "inside [c]" by (intro inside_plain) (auto simp: plain_char_def)
  then show ?case using inside_append [of "[c]" v] Cons by simp
qed simp

lemma unquote_plain_text: "list_all plain_char v \<Longrightarrow> unquote_body v = v"
proof (induction v)
  case Nil
  show ?case by (simp add: unquote_body.simps)
next
  case (Cons c v)
  have "unquote_unit ([c] @ v) = ([c], length [c])"
    using Cons.prems by (simp add: unquote_unit_def plain_char_def)
  from unquote_body_step [OF this] Cons show ?case by simp
qed

lemma inside_valid: "inside v \<Longrightarrow> unmarshal_string (CHR ''\"'' # v @ [CHR ''\"'']) = Some (unquote_body v)"
proof -
  assume v: "inside v"
  have "foldl j_step (InString, []) v = (InString, [])" using v by (simp add: inside_def)
  then have "json_valid (CHR ''\"'' # v @ [CHR ''\"''])"
    by (simp add: json_valid_def j_begin_value_def j_space_def)
  moreover have "\<not> j_space CHR ''\"''" by (simp add: j_space_def)
  ultimately show ?thesis by (simp add: unmarshal_string_def Let_def)
qed

lemma sse_data_keys: "is_data_key (json_string ''data'')" "\<not> is_data_key (json_string ''type'')"
  by code_simp+

lemma sse_data_trim: "TrimSpace (CHR '' '' # sse_data name v) = sse_data name v" "TrimSpace (sse_data name v) = sse_data name v"
proof -
  have s: "solid CHR ''{''" "solid CHR ''}''" by code_simp+
  have "sse_data name v \<noteq> []" "solid (hd (sse_data name v))" "solid (last (sse_data name v))"
    using s by (simp_all add: sse_data_def)
  then show "TrimSpace (CHR '' '' # sse_data name v) = sse_data name v" "TrimSpace (sse_data name v) = sse_data name v"
    by (rule TrimSpace_solid)+
qed

lemma wrappedValue_data:
  assumes "inside name" and "inside v"
  shows "wrappedValue (sse_data name v) = unquote_body v"
proof -
  have "sse_data name v \<noteq> []" "HasPrefix (sse_data name v) ''{''" by (simp_all add: sse_data_def HasPrefix_def)
  then show ?thesis
    by (simp add: wrappedValue_def sse_data_trim sse_data_members [OF assms] sse_data_keys inside_valid [OF assms(2)] Let_def)
qed

section \<open>From bytes to commands\<close>

lemma split_line_append: "CHR 0x0A \<notin> set l \<Longrightarrow> split_line (l @ CHR 0x0A # r) = (l, Some r)"
  by (induction l) auto

lemma scan_lines_line:
  assumes "CHR 0x0A \<notin> set l" and "length l < max_token"
  shows "scan_lines (l @ CHR 0x0A # r) = (drop_cr l # fst (scan_lines r), snd (scan_lines r))"
  using assms by (subst scan_lines.simps) (simp add: split_line_append split_beta)

lemma scan_lines_Nil [simp]: "scan_lines [] = ([], False)"
  by (subst scan_lines.simps) simp

text \<open>A frame the stream may carry: the name is plain text without surrounding blanks, the value
  is the inside of a JSON literal, and each line fits the scanner's buffer.\<close>

definition frame_ok :: "string \<times> string \<Rightarrow> bool" where
  "frame_ok e \<longleftrightarrow>
     fst e \<noteq> [] \<and> list_all plain_char (fst e) \<and> solid (hd (fst e)) \<and> solid (last (fst e))
     \<and> inside (snd e) \<and> CHR 0x0A \<notin> set (snd e) \<and> length (sse_data (fst e) (snd e)) + 6 < max_token"

lemma plain_no_newline: "list_all plain_char v \<Longrightarrow> CHR 0x0A \<notin> set v"
  by (induction v) (auto simp: plain_char_def)

lemma drop_cr_id: "s = [] \<or> last s \<noteq> CHR 0x0D \<Longrightarrow> drop_cr s = s"
  by (auto simp: drop_cr_def)

lemma scan_frame:
  assumes "frame_ok (n, v)"
  shows "scan_lines (sse_frame n v @ r) =
    ([''event: '' @ n, ''data: '' @ sse_data n v, []] @ fst (scan_lines r), snd (scan_lines r))"
proof -
  have n: "n \<noteq> []" "list_all plain_char n" and v: "CHR 0x0A \<notin> set v"
      and len: "length (sse_data n v) + 6 < max_token"
    using assms by (simp_all add: frame_ok_def)
  have l: "last n \<noteq> CHR 0x0D" using n by (cases n rule: rev_cases) (auto simp: plain_char_def)
  have nl: "CHR 0x0A \<notin> set (''event: '' @ n)" "CHR 0x0A \<notin> set (''data: '' @ sse_data n v)"
    using n v plain_no_newline by (auto simp: sse_data_def)
  have "length (''event: '' @ n) < max_token" "length (''data: '' @ sse_data n v) < max_token"
      "length ([] :: string) < max_token"
    using len by (simp_all add: sse_data_def max_token_def)
  note 1 = scan_lines_line [OF nl(1) this(1)] and 2 = scan_lines_line [OF nl(2) this(2)]
    and 3 = scan_lines_line [of "[]", OF _ this(3)]
  have d: "drop_cr (''event: '' @ n) = ''event: '' @ n" "drop_cr (''data: '' @ sse_data n v) = ''data: '' @ sse_data n v"
      "drop_cr [] = []"
    using n l by (auto intro!: drop_cr_id simp: sse_data_def)
  have "sse_frame n v @ r =
      (''event: '' @ n) @ CHR 0x0A # (''data: '' @ sse_data n v) @ CHR 0x0A # [] @ CHR 0x0A # r"
    by (simp add: sse_frame_def)
  then show ?thesis using 3 [of r] unfolding d by (simp only: 1 2 d) simp
qed

lemma dispatch_data:
  "inside n \<Longrightarrow> inside v \<Longrightarrow> dispatch n (sse_data n v) = event_commands n (unquote_body v)"
  by (simp only: dispatch_def event_commands_def wrappedValue_data split: if_split) simp

lemma sse_line_frame:
  assumes "frame_ok (n, v)"
  shows "sse_line st (''event: '' @ n) = (st\<lparr>eventName := n\<rparr>, [])"
    and "sse_line st (''data: '' @ sse_data n v) = (st\<lparr>pending := pending st @ sse_data n v\<rparr>, [])"
    and "sse_line \<lparr>eventName = n, pending = sse_data n v\<rparr> [] = (sse_start, event_commands n (unquote_body v))"
proof -
  have n: "n \<noteq> []" "solid (hd n)" "solid (last n)" "list_all plain_char n" and v: "inside v"
    using assms by (simp_all add: frame_ok_def)
  have t: "TrimPrefix (''event: '' @ n) ''event:'' = CHR '' '' # n"
      "TrimPrefix (''data: '' @ sse_data n v) ''data:'' = CHR '' '' # sse_data n v"
    by (simp_all add: TrimPrefix_def HasPrefix_def)
  show "sse_line st (''event: '' @ n) = (st\<lparr>eventName := n\<rparr>, [])"
    unfolding sse_line_def t using TrimSpace_solid(2) [OF n(1-3)] by (simp add: HasPrefix_def)
  show "sse_line st (''data: '' @ sse_data n v) = (st\<lparr>pending := pending st @ sse_data n v\<rparr>, [])"
    unfolding sse_line_def t using sse_data_trim by (simp add: HasPrefix_def)
  show "sse_line \<lparr>eventName = n, pending = sse_data n v\<rparr> [] = (sse_start, event_commands n (unquote_body v))"
    using n(1) dispatch_data [OF inside_plain_text [OF n(4)] v] by (simp add: sse_line_def)
qed

fun frame_lines :: "string \<times> string \<Rightarrow> string list" where
  "frame_lines (n, v) = [''event: '' @ n, ''data: '' @ sse_data n v, []]"

definition sse_stream :: "(string \<times> string) list \<Rightarrow> string" where
  "sse_stream fs = concat (map (\<lambda>(n, v). sse_frame n v) fs)"

lemma sse_stream_simps [simp]: "sse_stream [] = []" "sse_stream ((n, v) # fs) = sse_frame n v @ sse_stream fs"
  by (simp_all add: sse_stream_def)

lemma scan_frames:
  "\<forall>e \<in> set fs. frame_ok e \<Longrightarrow> scan_lines (sse_stream fs) = (concat (map frame_lines fs), False)"
proof (induction fs)
  case (Cons e fs)
  obtain n v where e: "e = (n, v)" by (cases e)
  then show ?case using Cons scan_frame [of n v "sse_stream fs"] by simp
qed simp

lemma read_three:
  assumes "frame_ok (n, v)"
  shows "read_lines (PollNone # PollNone # PollNone # ps) (frame_lines (n, v) @ ls) err sse_start =
    (event_commands n (unquote_body v) @ fst (read_lines ps ls err sse_start), snd (read_lines ps ls err sse_start))"
proof -
  note f = sse_line_frame [OF assms]
  have 1: "sse_line sse_start (''event: '' @ n) = (\<lparr>eventName = n, pending = []\<rparr>, [])"
    by (subst f(1)) (simp add: sse_start_def)
  have 2: "sse_line \<lparr>eventName = n, pending = []\<rparr> (''data: '' @ sse_data n v) = (\<lparr>eventName = n, pending = sse_data n v\<rparr>, [])"
    by (subst f(2)) simp
  have "frame_lines (n, v) @ ls = (''event: '' @ n) # (''data: '' @ sse_data n v) # [] # ls" by simp
  then show ?thesis
    by (simp only: read_lines.simps 1 2 f(3) Let_def prod.case split_beta fst_conv snd_conv append_Nil)
qed

lemma read_frames:
  "\<forall>e \<in> set fs. frame_ok e \<Longrightarrow> 3 * length fs < k \<Longrightarrow>
    read_lines (replicate k PollNone) (concat (map frame_lines fs)) err sse_start =
      (concat (map (\<lambda>(n, v). event_commands n (unquote_body v)) fs),
       Some (case err of Some e \<Rightarrow> e | None \<Rightarrow> io_EOF))"
proof (induction fs arbitrary: k)
  case Nil
  then show ?case by (cases k) simp_all
next
  case (Cons e fs)
  obtain n v where e: "e = (n, v)" by (cases e)
  then have ok: "frame_ok (n, v)" using Cons.prems by simp
  obtain k' where k: "k = Suc (Suc (Suc k'))" "3 * length fs < k'"
    using Cons.prems(2) by (intro that [of "k - 3"]) simp_all
  show ?case
    using Cons.IH [OF _ k(2)] Cons.prems(1)
    by (simp add: e k(1) read_three [OF ok] del: frame_lines.simps)
qed

section \<open>The idle timer\<close>

text \<open>
  The clock of the read loop: for each line, how long the stream was silent before it arrived and
  how long the loop then worked on it. The timer is armed when the loop starts and again after
  each line; it has fired at the \<open>select\<close> when its deadline is not later than the clock.
\<close>

fun timer_polls :: "nat \<Rightarrow> nat \<Rightarrow> nat \<Rightarrow> (nat \<times> nat) list \<Rightarrow> poll list" where
  "timer_polls idle now deadline [] = [if deadline \<le> now then PollIdle else PollNone]"
| "timer_polls idle now deadline ((silence, work) # ts) =
    (if deadline \<le> now then PollIdle else PollNone)
      # timer_polls idle (now + silence + work) (now + silence + idle) ts"

lemma timer_polls_quiet:
  "list_all (\<lambda>t. snd t < idle) ts \<Longrightarrow> now < deadline \<Longrightarrow>
    timer_polls idle now deadline ts = replicate (Suc (length ts)) PollNone"
  by (induction idle now deadline ts rule: timer_polls.induct) auto

lemma read_lines_no_idle:
  "end_err \<noteq> Some errIdle \<Longrightarrow> snd (read_lines (replicate k PollNone) ls end_err st) \<noteq> Some errIdle"
proof (induction k arbitrary: ls st)
  case (Suc k)
  have "io_EOF \<noteq> errIdle" by (simp add: io_EOF_def errIdle_def)
  then show ?case using Suc by (cases ls) (auto simp: split_beta split: option.splits)
qed simp

lemma errTooLong_not_idle [simp]: "errTooLong \<noteq> errIdle"
  by (simp add: errTooLong_def errIdle_def)

section \<open>The reconnect loop\<close>

definition turn_ends :: "turn \<Rightarrow> bool" where
  "turn_ends t \<longleftrightarrow> cancelled_before t \<or> cancelled_after t \<or> \<not> sse_sleep (waited t)"

lemma listener_run_waits:
  "fst (snd (listener_run l ts b)) =
    map (schedule audio_NextBackoff (listener_maxBackoff l) b) [0..<length (fst (snd (listener_run l ts b)))]"
proof (induction l ts b rule: listener_run.induct)
  case (2 l t ts b)
  let ?n = "audio_NextBackoff b (listener_maxBackoff l)"
  have m: "map (schedule audio_NextBackoff (listener_maxBackoff l) b) [0..<Suc n] =
      b # map (schedule audio_NextBackoff (listener_maxBackoff l) ?n) [0..<n]" for n
    by (simp add: map_upt_Suc schedule_Suc2 del: upt_Suc)
  show ?case
    using 2 m [of 0] by (auto simp: split_beta Let_def m simp del: upt_Suc)
qed simp

lemma listener_run_returns: "snd (snd (listener_run l ts b)) = list_ex turn_ends ts"
  by (induction l ts b rule: listener_run.induct) (auto simp: turn_ends_def split_beta Let_def)

section \<open>Properties\<close>

text \<open>C29: A stream of well-formed Teddycloud frames makes the listener issue exactly the commands
  the event table promises, in the order of the frames, and ends with \<open>io.EOF\<close>: the scanner, the
  field prefixes, the JSON unwrapping and the dispatch composed.\<close>

theorem listener_commands:
  assumes "list_all frame_ok fs" and "3 * length fs < k"
  shows "readLoop (replicate k PollNone) (sse_stream fs) None =
    (concat (map (\<lambda>(n, v). event_commands n (unquote_body v)) fs), Some io_EOF)"
proof -
  have ok: "\<forall>e \<in> set fs. frame_ok e" using assms(1) by (simp add: list_all_iff)
  show ?thesis
    by (simp add: readLoop_def scan_frames [OF ok] read_frames [OF ok assms(2)])
qed

definition demo_frames :: "(string \<times> string) list" where
  "demo_frames = [(''TagValid'', ''E00403500EEA4BF2''), (''playback'', ''starting''), (''knock'', ''forward''),
     (''pressed'', ''ear-big''), (''knock'', ''backward''), (''playback'', ''stopped'')]"

lemma demo_frames_ok: "list_all frame_ok demo_frames"
proof -
  have l: "list_all (\<lambda>e. fst e \<noteq> [] \<and> list_all plain_char (fst e) \<and> solid (hd (fst e)) \<and> solid (last (fst e))
      \<and> list_all plain_char (snd e) \<and> CHR 0x0A \<notin> set (snd e) \<and> length (sse_data (fst e) (snd e)) < 100) demo_frames"
    by code_simp
  show ?thesis
    by (rule list.pred_mono_strong [OF l]) (auto simp: frame_ok_def inside_plain_text max_token_def)
qed

lemma listener_commands_witness:
  "fst (readLoop (replicate 19 PollNone) (sse_stream demo_frames) None)
    = [CmdPlay [], CmdSkipNext, CmdSkipPrev, CmdPause]"
proof -
  have e: "concat (map (\<lambda>(n, v). event_commands n (unquote_body v)) demo_frames)
      = [CmdPlay [], CmdSkipNext, CmdSkipPrev, CmdPause]"
    by code_simp
  have "3 * length demo_frames < 19" by (simp add: demo_frames_def)
  from listener_commands [OF demo_frames_ok this] show ?thesis by (simp only: e fst_conv)
qed

text \<open>C30: However long the stream is silent, the read loop never returns \<open>errIdle\<close>, as long as no
  single line takes the idle timeout to work on: the timer is only looked at between lines,
  right after it was rearmed, while the blocking \<open>Scan\<close> waits without it.\<close>

theorem listener_silence_unnoticed:
  assumes "0 < idle" and "list_all (\<lambda>t. snd t < idle) ts" and "body_err \<noteq> Some errIdle"
  shows "snd (readLoop (timer_polls idle 0 idle ts) body body_err) \<noteq> Some errIdle"
  unfolding readLoop_def timer_polls_quiet [OF assms(2,1)] split_beta Let_def
  by (rule read_lines_no_idle) (use assms(3) in simp)

lemma listener_silence_unnoticed_witness:
  "snd (readLoop (timer_polls 120 0 120 [(1000000, 1)]) (''id: 7'' @ [CHR 0x0A]) None) \<noteq> Some errIdle"
  by (rule listener_silence_unnoticed) simp_all

text \<open>The reconnect loop waits the capped exponential schedule after each lost connection, and
  returns exactly when the context was cancelled before, during or after a turn.\<close>

theorem Run_listener_waits:
  "fst (snd (Run_listener l ts)) =
      map (schedule audio_NextBackoff (listener_maxBackoff l) (listener_backoff l))
        [0..<length (fst (snd (Run_listener l ts)))]
    \<and> snd (snd (Run_listener l ts)) = list_ex turn_ends ts"
  unfolding Run_listener_def using listener_run_waits listener_run_returns by blast

end
