(* ===== verification/GoChan.thy ===== *)
theory GoChan imports Prelude begin

text \<open>
  Buffered Go channels: the capacity, the values in the buffer in order, and whether the
  channel is closed. A send inside a \<open>select\<close> with a \<open>default\<close> succeeds exactly when the
  buffer has room; a receive takes the oldest value. The locale \<open>fifo_channel\<close> is the
  contract the components rely on (the recorder, the static source and the mock hub),
  with the conservation law of a run of sends and receives proved once inside it.
\<close>

section \<open>The channel\<close>

record 'a chan =
  cap :: nat
  buf :: "'a list"
  closed :: bool

definition make_chan :: "nat \<Rightarrow> 'a chan" where
  "make_chan n = \<lparr>cap = n, buf = [], closed = False\<rparr>"

definition try_send :: "'a \<Rightarrow> 'a chan \<Rightarrow> 'a chan option" where
  "try_send x ch = (if length (buf ch) < cap ch then Some (ch\<lparr>buf := buf ch @ [x]\<rparr>) else None)"

definition try_recv :: "'a chan \<Rightarrow> ('a \<times> 'a chan) option" where
  "try_recv ch = (case buf ch of [] \<Rightarrow> None | x # xs \<Rightarrow> Some (x, ch\<lparr>buf := xs\<rparr>))"

definition chan_ok :: "'a chan \<Rightarrow> bool" where
  "chan_ok ch \<longleftrightarrow> length (buf ch) \<le> cap ch"

text \<open>Receive until the buffer is empty: the non-blocking drain loop.\<close>

function drain :: "'a chan \<Rightarrow> 'a list \<times> 'a chan" where
  "drain ch =
    (case try_recv ch of
       None \<Rightarrow> ([], ch)
     | Some (x, ch') \<Rightarrow> (let (xs, ch'') = drain ch' in (x # xs, ch'')))"
  by pat_completeness auto
termination
  by (relation "measure (\<lambda>ch. length (buf ch))") (auto simp: try_recv_def split: list.splits)

declare drain.simps [simp del]

lemma make_chan_simps [simp]:
  "cap (make_chan n) = n" "buf (make_chan n) = []" "closed (make_chan n) = False" "chan_ok (make_chan n)"
  by (simp_all add: make_chan_def chan_ok_def)

lemma drain_all: "drain ch = (buf ch, ch\<lparr>buf := []\<rparr>)"
proof (induction ch rule: drain.induct)
  case (1 ch)
  then show ?case
    by (subst drain.simps) (cases ch; cases "buf ch"; auto simp: try_recv_def)
qed

section \<open>The contract of a bounded first-in first-out channel\<close>

datatype 'a chan_op = OpSend 'a | OpRecv

text \<open>
  A run of operations: what was accepted, what was refused because the channel was full,
  what was received, and the channel at the end.
\<close>

fun run_ops :: "('a \<Rightarrow> 'c \<Rightarrow> 'c option) \<Rightarrow> ('c \<Rightarrow> ('a \<times> 'c) option) \<Rightarrow> 'c \<Rightarrow> 'a chan_op list
    \<Rightarrow> 'a list \<times> 'a list \<times> 'a list \<times> 'c" where
  "run_ops snd_op rcv_op c [] = ([], [], [], c)"
| "run_ops snd_op rcv_op c (OpSend x # ops) =
    (case snd_op x c of
       None \<Rightarrow> (let (acc, ref, rcv, c') = run_ops snd_op rcv_op c ops in (acc, x # ref, rcv, c'))
     | Some d \<Rightarrow> (let (acc, ref, rcv, c') = run_ops snd_op rcv_op d ops in (x # acc, ref, rcv, c')))"
| "run_ops snd_op rcv_op c (OpRecv # ops) =
    (case rcv_op c of
       None \<Rightarrow> run_ops snd_op rcv_op c ops
     | Some (x, d) \<Rightarrow> (let (acc, ref, rcv, c') = run_ops snd_op rcv_op d ops in (acc, ref, x # rcv, c')))"

locale fifo_channel =
  fixes contents :: "'c \<Rightarrow> 'a list"
    and capacity :: "'c \<Rightarrow> nat"
    and snd_op :: "'a \<Rightarrow> 'c \<Rightarrow> 'c option"
    and rcv_op :: "'c \<Rightarrow> ('a \<times> 'c) option"
  assumes send_room: "length (contents c) < capacity c \<Longrightarrow>
      \<exists>d. snd_op x c = Some d \<and> contents d = contents c @ [x] \<and> capacity d = capacity c"
    and send_full: "\<not> length (contents c) < capacity c \<Longrightarrow> snd_op x c = None"
    and recv_none: "rcv_op c = None \<longleftrightarrow> contents c = []"
    and recv_some: "rcv_op c = Some (x, d) \<Longrightarrow> contents c = x # contents d \<and> capacity d = capacity c"
begin

lemma send_Some:
  assumes "snd_op x c = Some d"
  shows "contents d = contents c @ [x] \<and> capacity d = capacity c \<and> length (contents d) \<le> capacity d"
proof -
  have room: "length (contents c) < capacity c" using assms send_full by fastforce
  obtain d' where d': "snd_op x c = Some d'" "contents d' = contents c @ [x]" "capacity d' = capacity c"
    using send_room [OF room, of x] by blast
  then have "d' = d" using assms by simp
  then show ?thesis using d'(2,3) room by auto
qed

lemma fifo_conservation:
  "run_ops snd_op rcv_op c ops = (acc, ref, rcv, c') \<Longrightarrow> contents c @ acc = rcv @ contents c'"
proof (induction ops arbitrary: c acc ref rcv c')
  case (Cons p ops)
  from Cons.prems show ?case
    by (cases p) (auto split: option.splits prod.splits dest!: Cons.IH send_Some recv_some)
qed simp

lemma fifo_bounded:
  "run_ops snd_op rcv_op c ops = (acc, ref, rcv, c') \<Longrightarrow> length (contents c) \<le> capacity c \<Longrightarrow>
     length (contents c') \<le> capacity c'"
proof (induction ops arbitrary: c acc ref rcv c')
  case (Cons p ops)
  then show ?case
    by (cases p) (fastforce split: option.splits prod.splits dest!: send_Some recv_some)+
qed simp

end

interpretation chan_fifo: fifo_channel buf cap try_send try_recv
  by unfold_locales (auto simp: try_send_def try_recv_def split: list.splits if_splits)

lemma try_send_Some:
  "try_send x ch = Some ch' \<longleftrightarrow> length (buf ch) < cap ch \<and> ch' = ch\<lparr>buf := buf ch @ [x]\<rparr>"
  by (auto simp: try_send_def)

lemma try_send_None: "try_send x ch = None \<longleftrightarrow> cap ch \<le> length (buf ch)"
  by (auto simp: try_send_def)

lemma try_recv_Some: "try_recv ch = Some (x, ch') \<longleftrightarrow> (\<exists>xs. buf ch = x # xs \<and> ch' = ch\<lparr>buf := xs\<rparr>)"
  by (auto simp: try_recv_def split: list.splits)

lemma chan_ok_ops [intro, inv_intros]:
  "chan_ok ch \<Longrightarrow> try_send x ch = Some ch' \<Longrightarrow> chan_ok ch'"
  "chan_ok ch \<Longrightarrow> try_recv ch = Some (x, ch') \<Longrightarrow> chan_ok ch'"
  by (auto simp: chan_ok_def try_send_Some try_recv_Some)

end
