(* ===== verification/MockHub.thy ===== *)
theory MockHub imports Listener GoChan begin

text \<open>
  \<open>cmd/mock-teddycloud/main.go\<close>: the hub of the mock Teddycloud, which broadcasts events to its
  subscribers and streams them as frames. A subscriber is its channel; \<open>handleSSE\<close> is the loop that
  takes events (or keep-alive ticks) and writes frames. Composed with the listener's model it gives
  the end-to-end statement about control actions and commands.
\<close>

section \<open>The hub\<close>

type_synonym event = "string \<times> string"

record hub =
  clients :: "nat \<Rightarrow> event chan option"
  uid :: string

definition newHub :: "string \<Rightarrow> hub" where
  "newHub u = \<lparr>clients = (\<lambda>_. None), uid = u\<rparr>"

definition subscribe :: "nat \<Rightarrow> event chan \<Rightarrow> hub \<Rightarrow> hub" where
  "subscribe k ch h = h\<lparr>clients := (clients h)(k := Some ch)\<rparr>"

definition unsubscribe :: "nat \<Rightarrow> hub \<Rightarrow> hub" where
  "unsubscribe k h = h\<lparr>clients := (clients h)(k := None)\<rparr>"

text \<open>A subscriber whose channel is full misses the event.\<close>

definition offer :: "event \<Rightarrow> event chan \<Rightarrow> event chan" where
  "offer evt ch = (case try_send evt ch of Some ch' \<Rightarrow> ch' | None \<Rightarrow> ch)"

definition broadcast :: "event \<Rightarrow> hub \<Rightarrow> hub" where
  "broadcast evt h = h\<lparr>clients := (\<lambda>k. map_option (offer evt) (clients h k))\<rparr>"

definition sseFrame :: "string \<Rightarrow> string \<Rightarrow> string" where
  "sseFrame name value =
    ''event: '' @ name @ [CHR 0x0A] @ ''data: { \"type\":\"'' @ name @ ''\", \"data\":\"'' @ value @ ''\" }''
    @ [CHR 0x0A, CHR 0x0A]"

section \<open>Control actions\<close>

definition trigger_events :: "string \<Rightarrow> string \<Rightarrow> event list" where
  "trigger_events u action =
    (if action = ''figurine-placed'' then
       [(''TagValid'', u), (''playback'', ''starting''), (''playback'', ''started''),
        (''ContentAudioId'', ''436906887''), (''ContentTitle'', ''Unknown'')]
     else if action = ''figurine-lifted'' then [(''playback'', ''stopped'')]
     else if action = ''ear-big'' then [(''VolumeLevel'', ''12''), (''VolumedB'', ''-3''), (''pressed'', ''ear-big'')]
     else if action = ''ear-small'' then [(''VolumeLevel'', ''10''), (''VolumedB'', ''-9''), (''pressed'', ''ear-small'')]
     else if action = ''ear-small-double'' then
       [(''VolumeLevel'', ''9''), (''VolumedB'', ''-12''), (''pressed'', ''ear-small-double'')]
     else if action = ''knock-forward'' then [(''knock'', ''forward'')]
     else if action = ''knock-backward'' then [(''knock'', ''backward'')]
     else [])"

definition trigger :: "string \<Rightarrow> hub \<Rightarrow> hub" where
  "trigger action h = fold broadcast (trigger_events (uid h) action) h"

text \<open>\<open>handleEvent\<close>: the status and the hub afterwards.\<close>

definition handleEvent :: "string \<Rightarrow> hub \<Rightarrow> nat \<times> hub" where
  "handleEvent action h = (if action = [] then (400, h) else (204, trigger action h))"

section \<open>The streams of the hub\<close>

record hub_sys =
  the_hub :: hub
  sent :: "nat \<Rightarrow> string"

datatype hub_act = HubSub nat | HubDone nat | HubEvent string | HubSend nat | HubKeepAlive nat

text \<open>\<open>handleSSE\<close>: subscription with a buffer of 16 events, then one turn of its \<open>select\<close> per action.\<close>

definition hub_step :: "hub_act \<Rightarrow> hub_sys \<Rightarrow> hub_sys option" where
  "hub_step a s =
    (case a of
       HubSub k \<Rightarrow>
         (if clients (the_hub s) k \<noteq> None then None
          else Some (s\<lparr>the_hub := subscribe k (make_chan 16) (the_hub s), sent := (sent s)(k := [])\<rparr>))
     | HubDone k \<Rightarrow>
         (if clients (the_hub s) k = None then None else Some (s\<lparr>the_hub := unsubscribe k (the_hub s)\<rparr>))
     | HubEvent action \<Rightarrow> Some (s\<lparr>the_hub := snd (handleEvent action (the_hub s))\<rparr>)
     | HubSend k \<Rightarrow>
         (case clients (the_hub s) k of
            None \<Rightarrow> None
          | Some ch \<Rightarrow>
            (case try_recv ch of
               None \<Rightarrow> None
             | Some (evt, ch') \<Rightarrow>
                Some (s\<lparr>the_hub := subscribe k ch' (the_hub s),
                        sent := (sent s)(k := sent s k @ sseFrame (fst evt) (snd evt))\<rparr>)))
     | HubKeepAlive k \<Rightarrow>
         (if clients (the_hub s) k = None then None
          else Some (s\<lparr>sent := (sent s)(k := sent s k @ sseFrame ''keep-alive'' [])\<rparr>)))"

fun hub_run :: "hub_act list \<Rightarrow> hub_sys \<Rightarrow> hub_sys option" where
  "hub_run [] s = Some s"
| "hub_run (a # as) s = (case hub_step a s of None \<Rightarrow> None | Some t \<Rightarrow> hub_run as t)"

definition hub_init :: "string \<Rightarrow> hub_sys" where
  "hub_init u = \<lparr>the_hub = newHub u, sent = (\<lambda>_. [])\<rparr>"

section \<open>Facts\<close>

lemma sseFrame_listener: "sseFrame = sse_frame"
  by (simp add: fun_eq_iff sseFrame_def sse_frame_def sse_data_def)

lemma hub_run_append:
  "hub_run (as @ bs) s = (case hub_run as s of None \<Rightarrow> None | Some t \<Rightarrow> hub_run bs t)"
  by (induction as arbitrary: s) (auto split: option.splits)

lemma uid_broadcast [simp]: "uid (broadcast e h) = uid h" "uid (fold broadcast es h) = uid h"
  by (simp add: broadcast_def) (induction es arbitrary: h, simp_all add: broadcast_def)

text \<open>Events that fit a subscriber's buffer reach it, in order.\<close>

lemma broadcast_fits:
  "clients h k = Some ch \<Longrightarrow> length (buf ch) + length es \<le> cap ch \<Longrightarrow>
    clients (fold broadcast es h) k = Some (ch\<lparr>buf := buf ch @ es\<rparr>)"
proof (induction es arbitrary: h ch)
  case (Cons e es)
  have "clients (broadcast e h) k = Some (ch\<lparr>buf := buf ch @ [e]\<rparr>)"
    using Cons.prems by (simp add: broadcast_def offer_def try_send_def)
  then show ?case using Cons.IH [of "broadcast e h" "ch\<lparr>buf := buf ch @ [e]\<rparr>"] Cons.prems(2) by simp
qed simp

text \<open>A subscriber sends what waits in its channel, frame by frame.\<close>

lemma send_all_waiting:
  "clients (the_hub s) k = Some ch \<Longrightarrow> buf ch = es \<Longrightarrow>
    \<exists>t. hub_run (replicate (length es) (HubSend k)) s = Some t
      \<and> clients (the_hub t) k = Some (ch\<lparr>buf := []\<rparr>) \<and> uid (the_hub t) = uid (the_hub s)
      \<and> sent t k = sent s k @ sse_stream es"
proof (induction es arbitrary: s ch)
  case Nil
  then show ?case by (cases ch) simp
next
  case (Cons e es)
  obtain n v where e: "e = (n, v)" by (cases e)
  let ?c = "ch\<lparr>buf := es\<rparr>"
  let ?u = "s\<lparr>the_hub := subscribe k ?c (the_hub s), sent := (sent s)(k := sent s k @ sse_frame n v)\<rparr>"
  have st: "hub_step (HubSend k) s = Some ?u"
    using Cons.prems e by (simp add: hub_step_def try_recv_def sseFrame_listener)
  have "clients (the_hub ?u) k = Some ?c" "buf ?c = es" by (simp_all add: subscribe_def)
  from Cons.IH [OF this] st e show ?case by (auto simp: subscribe_def)
qed

section \<open>From control actions to commands\<close>

text \<open>What happens at the control page and at a connected stream: an action whose events are then
  sent, or a keep-alive tick.\<close>

datatype hub_input = InAction string | InTick

fun drive :: "string \<Rightarrow> nat \<Rightarrow> hub_input \<Rightarrow> hub_act list" where
  "drive u k (InAction a) = HubEvent a # replicate (length (trigger_events u a)) (HubSend k)"
| "drive u k InTick = [HubKeepAlive k]"

fun input_frames :: "string \<Rightarrow> hub_input \<Rightarrow> event list" where
  "input_frames u (InAction a) = trigger_events u a"
| "input_frames u InTick = [(''keep-alive'', [])]"

text \<open>The documented effect of each action on playback.\<close>

fun input_commands :: "hub_input \<Rightarrow> command list" where
  "input_commands (InAction a) =
    (if a = ''figurine-placed'' then [CmdPlay []]
     else if a = ''figurine-lifted'' then [CmdPause]
     else if a = ''knock-forward'' then [CmdSkipNext]
     else if a = ''knock-backward'' then [CmdSkipPrev] else [])"
| "input_commands InTick = []"

lemma frame_ok_plain:
  assumes "n \<noteq> []" "list_all plain_char n" "solid (hd n)" "solid (last n)" "list_all plain_char v"
    and "length n + length v < 60000"
  shows "frame_ok (n, v)"
  using assms inside_plain_text plain_no_newline by (simp add: frame_ok_def sse_data_def max_token_def)

definition short_plain :: "event \<Rightarrow> bool" where
  "short_plain e \<longleftrightarrow> fst e \<noteq> [] \<and> list_all plain_char (fst e) \<and> solid (hd (fst e)) \<and> solid (last (fst e))
     \<and> list_all plain_char (snd e) \<and> length (fst e) + length (snd e) < 100"

lemma short_plain_ok: "short_plain e \<Longrightarrow> frame_ok e"
  using frame_ok_plain [of "fst e" "snd e"] by (simp add: short_plain_def)

lemma constant_events: "list_all (\<lambda>a. list_all short_plain (trigger_events ''0'' a))
    [''figurine-placed'', ''figurine-lifted'', ''ear-big'', ''ear-small'', ''ear-small-double'', ''knock-forward'',
     ''knock-backward'']"
    "short_plain (''keep-alive'', [])" "list_all plain_char ''TagValid'' \<and> solid CHR ''T'' \<and> solid CHR ''d''"
  by code_simp+

lemma input_frames_ok:
  assumes "list_all plain_char u" and "length u < 1000"
  shows "list_all frame_ok (input_frames u x)"
proof (cases x)
  case (InAction a)
  have t: "frame_ok (''TagValid'', u)"
    by (rule frame_ok_plain) (use assms constant_events(3) in simp_all)
  have "list_all frame_ok (trigger_events u a)" if "a = ''figurine-placed''"
    using t constant_events(1) that short_plain_ok by (simp add: trigger_events_def)
  moreover have "list_all frame_ok (trigger_events u a)" if "a \<noteq> ''figurine-placed''"
  proof -
    have "trigger_events u a = trigger_events ''0'' a" using that by (simp add: trigger_events_def)
    moreover have "list_all short_plain (trigger_events ''0'' a)"
      using constant_events(1) by (simp add: trigger_events_def)
    ultimately show ?thesis using short_plain_ok by (auto simp: list_all_iff)
  qed
  ultimately show ?thesis using InAction by (cases "a = ''figurine-placed''") auto
next
  case InTick
  then show ?thesis using short_plain_ok [OF constant_events(2)] by simp
qed

lemma unquote_constants:
  "unquote_body ''stopped'' = ''stopped''" "unquote_body ''starting'' = ''starting''" "unquote_body ''started'' = ''started''"
  "unquote_body ''forward'' = ''forward''" "unquote_body ''backward'' = ''backward''"
  by (rule unquote_plain_text; code_simp)+

lemma input_frames_commands:
  "concat (map (\<lambda>(n, v). event_commands n (unquote_body v)) (input_frames u x)) = input_commands x"
  by (cases x) (simp_all add: trigger_events_def event_commands_def unquote_constants)

lemma trigger_length: "length (trigger_events u a) \<le> 16"
  by (simp add: trigger_events_def)

lemma drive_run:
  assumes "clients (the_hub s) k = Some (make_chan 16)" and "uid (the_hub s) = u"
  shows "\<exists>t. hub_run (drive u k x) s = Some t \<and> clients (the_hub t) k = Some (make_chan 16) \<and> uid (the_hub t) = u
    \<and> sent t k = sent s k @ sse_stream (input_frames u x)"
proof (cases x)
  case (InAction a)
  let ?s = "s\<lparr>the_hub := trigger a (the_hub s)\<rparr>"
  have st: "hub_step (HubEvent a) s = Some ?s"
    by (simp add: hub_step_def handleEvent_def trigger_def trigger_events_def)
  have c: "clients (the_hub ?s) k = Some ((make_chan 16)\<lparr>buf := trigger_events u a\<rparr>)"
    using broadcast_fits [OF assms(1), of "trigger_events u a"] trigger_length assms(2) by (simp add: trigger_def)
  from send_all_waiting [OF c, of "trigger_events u a"] show ?thesis
    using st assms(2) InAction by (auto simp: make_chan_def trigger_def)
next
  case InTick
  have "hub_step (HubKeepAlive k) s = Some (s\<lparr>sent := (sent s)(k := sent s k @ sse_frame ''keep-alive'' [])\<rparr>)"
    using assms(1) by (simp add: hub_step_def sseFrame_listener)
  then show ?thesis using assms InTick by simp
qed

lemma sse_stream_append: "sse_stream (as @ bs) = sse_stream as @ sse_stream bs"
  by (simp add: sse_stream_def)

lemma drive_inputs:
  assumes "clients (the_hub s) k = Some (make_chan 16)" and "uid (the_hub s) = u"
  shows "\<exists>t. hub_run (concat (map (drive u k) xs)) s = Some t
    \<and> sent t k = sent s k @ sse_stream (concat (map (input_frames u) xs))"
  using assms
proof (induction xs arbitrary: s)
  case (Cons x xs)
  obtain t where t: "hub_run (drive u k x) s = Some t" "clients (the_hub t) k = Some (make_chan 16)" "uid (the_hub t) = u"
      "sent t k = sent s k @ sse_stream (input_frames u x)"
    using drive_run [OF Cons.prems] by blast
  from Cons.IH [OF t(2,3)] t show ?case by (auto simp: hub_run_append sse_stream_append)
qed simp

text \<open>End to end, from the mock's control page to the command sink: whatever sequence of control
  actions (unknown ones included) and keep-alive ticks happens while a listener is connected, the
  bytes the hub streams make the listener issue exactly the documented commands, in order: play
  when a figurine is placed, pause when it is lifted, the two skips for the knocks, and nothing
  for the ears.\<close>

theorem mock_drives_listener:
  assumes "list_all plain_char u" and "length u < 1000"
    and "3 * length (concat (map (input_frames u) xs)) < n"
  shows "\<exists>t. hub_run (HubSub k # concat (map (drive u k) xs)) (hub_init u) = Some t
    \<and> readLoop (replicate n PollNone) (sent t k) None = (concat (map input_commands xs), Some io_EOF)"
proof -
  let ?fs = "concat (map (input_frames u) xs)"
  let ?s = "(hub_init u)\<lparr>the_hub := subscribe k (make_chan 16) (newHub u), sent := (\<lambda>_. [])(k := [])\<rparr>"
  have st: "hub_step (HubSub k) (hub_init u) = Some ?s" by (simp add: hub_step_def hub_init_def newHub_def)
  have "clients (the_hub ?s) k = Some (make_chan 16)" "uid (the_hub ?s) = u"
    by (simp_all add: subscribe_def newHub_def)
  from drive_inputs [OF this] obtain t where
      t: "hub_run (concat (map (drive u k) xs)) ?s = Some t" "sent t k = sse_stream ?fs"
    by auto
  have ok: "list_all frame_ok ?fs"
    using input_frames_ok [OF assms(1,2)] by (induction xs) auto
  have c: "concat (map (\<lambda>(n, v). event_commands n (unquote_body v)) ?fs) = concat (map input_commands xs)"
    by (induction xs) (simp_all add: input_frames_commands)
  have "\<forall>e \<in> set ?fs. frame_ok e" using ok by (simp add: list_all_iff)
  note f = scan_frames [OF this] read_frames [OF this assms(3)]
  have "readLoop (replicate n PollNone) (sent t k) None = (concat (map input_commands xs), Some io_EOF)"
    unfolding readLoop_def t(2) by (simp add: f c)
  then show ?thesis using t(1) st by auto
qed

lemma mock_drives_listener_witness:
  "\<exists>t. hub_run (HubSub 7 # concat (map (drive ''E00403500EEA4BF2'' 7)
        [InAction ''figurine-placed'', InTick, InAction ''ear-big'', InAction ''knock-forward'', InAction ''figurine-lifted'']))
        (hub_init ''E00403500EEA4BF2'') = Some t
    \<and> fst (readLoop (replicate 40 PollNone) (sent t 7) None) = [CmdPlay [], CmdSkipNext, CmdPause]"
proof -
  have p: "list_all plain_char ''E00403500EEA4BF2''" by code_simp
  show ?thesis
    using mock_drives_listener [OF p, where n = 40 and k = 7 and xs =
      "[InAction ''figurine-placed'', InTick, InAction ''ear-big'', InAction ''knock-forward'', InAction ''figurine-lifted'']"]
    by (auto simp: trigger_events_def)
qed

end
