(* ===== verification/GoPath.thy ===== *)
theory GoPath imports GoStrings begin

text \<open>
  Paths and a file system. \<open>filepath.Clean\<close>, \<open>Join\<close> and \<open>Dir\<close> for slash-separated paths,
  \<open>net.JoinHostPort\<close>, and a file system as a map from cleaned paths to inodes with the
  operations of \<open>os\<close> the program uses. Where the operating system may refuse an operation
  for a reason outside the model (permissions, a full disk), its error is an argument.
\<close>

section \<open>Paths\<close>

text \<open>One path element on the stack of elements kept so far (the last one first).\<close>

definition clean_elem :: "bool \<Rightarrow> string list \<Rightarrow> string \<Rightarrow> string list" where
  "clean_elem rooted out e =
    (if e = [] \<or> e = ''.'' then out
     else if e = ''..'' then
       (if out \<noteq> [] \<and> hd out \<noteq> ''..'' then tl out
        else if rooted then out else ''..'' # out)
     else e # out)"

fun join_with :: "char \<Rightarrow> string list \<Rightarrow> string" where
  "join_with d [] = []"
| "join_with d [w] = w"
| "join_with d (w # v # ws) = w @ d # join_with d (v # ws)"

definition path_Clean :: "string \<Rightarrow> string" where
  "path_Clean p =
    (let rooted = (p \<noteq> [] \<and> hd p = CHR ''/'');
         out = join_with CHR ''/'' (rev (foldl (clean_elem rooted) [] (SplitOn CHR ''/'' p)))
     in if rooted then CHR ''/'' # out else if out = [] then ''.'' else out)"

fun path_Join :: "string list \<Rightarrow> string" where
  "path_Join [] = []"
| "path_Join (e # es) = (if e = [] then path_Join es else path_Clean (join_with CHR ''/'' (e # es)))"

definition path_Dir :: "string \<Rightarrow> string" where
  "path_Dir p = path_Clean (rev (dropWhile (\<lambda>c. c \<noteq> CHR ''/'') (rev p)))"

definition JoinHostPort :: "string \<Rightarrow> string \<Rightarrow> string" where
  "JoinHostPort host port =
    (if CHR '':'' \<in> set host then CHR ''['' # host @ '']:'' @ port else host @ CHR '':'' # port)"

text \<open>A plain element is kept by \<open>Clean\<close>.\<close>

definition plain_elem :: "string \<Rightarrow> bool" where
  "plain_elem e \<longleftrightarrow> e \<noteq> [] \<and> e \<noteq> ''.'' \<and> e \<noteq> ''..'' \<and> CHR ''/'' \<notin> set e"

lemma SplitOn_join:
  "list_all (\<lambda>e. d \<notin> set e) es \<Longrightarrow> es \<noteq> [] \<Longrightarrow> SplitOn d (join_with d es) = es"
proof (induction d es rule: join_with.induct)
  case (2 d w)
  then show ?case by (simp add: SplitOn_no_sep)
next
  case (3 d w v ws)
  then show ?case by (simp add: SplitOn_sep)
qed simp

lemma clean_plain: "list_all plain_elem es \<Longrightarrow> foldl (clean_elem r) out es = rev es @ out"
  by (induction es arbitrary: out) (auto simp: clean_elem_def plain_elem_def)

text \<open>A rooted path of plain elements is its own clean form, and joining appends elements.\<close>

lemma path_Clean_plain:
  assumes "list_all plain_elem es" "es \<noteq> []"
  shows "path_Clean (CHR ''/'' # join_with CHR ''/'' es) = CHR ''/'' # join_with CHR ''/'' es"
proof -
  have "SplitOn CHR ''/'' (CHR ''/'' # join_with CHR ''/'' es) = [] # es"
    using assms by (simp add: SplitOn_join list_all_iff plain_elem_def)
  then show ?thesis using clean_plain [OF assms(1)] by (simp add: path_Clean_def clean_elem_def Let_def)
qed

section \<open>Files\<close>

record inode =
  is_dir :: bool
  content :: string
  mtime :: int

type_synonym fs = "string \<Rightarrow> inode option"

definition err_not_exist :: goerr where
  "err_not_exist = ErrSentinel ''file does not exist''"

definition os_Stat :: "fs \<Rightarrow> string \<Rightarrow> inode result" where
  "os_Stat f p = (case f p of None \<Rightarrow> Inl err_not_exist | Some i \<Rightarrow> Inr i)"

definition os_ReadFile :: "fs \<Rightarrow> string \<Rightarrow> string result" where
  "os_ReadFile f p =
    (case f p of None \<Rightarrow> Inl err_not_exist
     | Some i \<Rightarrow> if is_dir i then Inl (ErrText ''is a directory'') else Inr (content i))"

definition os_Remove :: "goerror \<Rightarrow> string \<Rightarrow> fs \<Rightarrow> goerror \<times> fs" where
  "os_Remove refusal p f =
    (case f p of None \<Rightarrow> (Some err_not_exist, f)
     | Some i \<Rightarrow> (case refusal of Some e \<Rightarrow> (Some e, f) | None \<Rightarrow> (None, f(p := None))))"

definition is_file :: "fs \<Rightarrow> string \<Rightarrow> bool" where
  "is_file f p \<longleftrightarrow> (case f p of None \<Rightarrow> False | Some i \<Rightarrow> \<not> is_dir i)"

text \<open>\<open>os.MkdirAll\<close>: the directory and its parents, outermost first, each created when absent.\<close>

fun ancestors :: "nat \<Rightarrow> string \<Rightarrow> string list" where
  "ancestors 0 d = [d]"
| "ancestors (Suc n) d = (if path_Dir d = d then [d] else ancestors n (path_Dir d) @ [d])"

fun make_dirs :: "int \<Rightarrow> string list \<Rightarrow> fs \<Rightarrow> goerror \<times> fs" where
  "make_dirs now [] f = (None, f)"
| "make_dirs now (d # ds) f =
    (case f d of
       None \<Rightarrow> make_dirs now ds (f(d := Some \<lparr>is_dir = True, content = [], mtime = now\<rparr>))
     | Some i \<Rightarrow> if is_dir i then make_dirs now ds f else (Some (ErrText ''not a directory''), f))"

definition os_MkdirAll :: "goerror \<Rightarrow> int \<Rightarrow> string \<Rightarrow> fs \<Rightarrow> goerror \<times> fs" where
  "os_MkdirAll refusal now d f =
    (case refusal of Some e \<Rightarrow> (Some e, f) | None \<Rightarrow> make_dirs now (ancestors (length d) d) f)"

lemma os_Stat_simps [simp]:
  "os_Stat f p = Inl e \<longleftrightarrow> f p = None \<and> e = err_not_exist"
  "os_Stat f p = Inr i \<longleftrightarrow> f p = Some i"
  by (auto simp: os_Stat_def split: option.splits)

lemma make_dirs_keeps: "make_dirs now ds f = (e, f') \<Longrightarrow> f q \<noteq> None \<Longrightarrow> f' q = f q"
proof (induction ds arbitrary: f)
  case (Cons d ds)
  then show ?case by (cases "f d") (auto split: if_splits)
qed simp

lemma make_dirs_new: "make_dirs now ds f = (e, f') \<Longrightarrow> q \<notin> set ds \<Longrightarrow> f' q = f q"
proof (induction ds arbitrary: f)
  case (Cons d ds)
  then show ?case by (cases "f d") (auto split: if_splits)
qed simp

lemma os_MkdirAll_keeps: "os_MkdirAll r now d f = (e, f') \<Longrightarrow> f q \<noteq> None \<Longrightarrow> f' q = f q"
  by (auto simp: os_MkdirAll_def make_dirs_keeps split: option.splits)

end
