(* ===== verification/GoFloat.thy ===== *)
theory GoFloat imports Complex_Main Prelude "HOL-Library.Log_Nat" begin

text \<open>
  Go's \<open>float64\<close> for the values the program computes with: finite, in the normal range, so
  that every operation is the exact rational result rounded to 53 significant bits, ties to
  even (IEEE 754 binary64). The shim divides, adds and converts counters; none of its values
  comes near the overflow threshold or the subnormal range, so infinities, NaN and gradual
  underflow do not arise. The lemmas are those a rate computation needs: rounding is
  monotone, leaves representable values alone, and keeps the sign.
\<close>

section \<open>Rounding to an integer, ties to even\<close>

definition round_half_even :: "rat \<Rightarrow> int" where
  "round_half_even x =
    (let f = \<lfloor>x\<rfloor>; d = x - of_int f
     in if d < 1 / 2 then f else if d > 1 / 2 then f + 1 else if even f then f else f + 1)"

lemma round_half_even_bounds: "\<lfloor>x\<rfloor> \<le> round_half_even x \<and> round_half_even x \<le> \<lfloor>x\<rfloor> + 1"
  by (simp add: round_half_even_def Let_def)

lemma round_half_even_int [simp]: "round_half_even (of_int n) = n"
  by (simp add: round_half_even_def)

lemma round_half_even_mono:
  assumes "x \<le> y"
  shows "round_half_even x \<le> round_half_even y"
proof (cases "\<lfloor>x\<rfloor> = \<lfloor>y\<rfloor>")
  case True
  then show ?thesis using assms by (auto simp: round_half_even_def Let_def)
next
  case False
  then have "\<lfloor>x\<rfloor> + 1 \<le> \<lfloor>y\<rfloor>" using floor_mono [OF assms] by simp
  then show ?thesis using round_half_even_bounds [of x] round_half_even_bounds [of y] by linarith
qed

section \<open>The binary exponent\<close>

definition flog2 :: "rat \<Rightarrow> int" where
  "flog2 x =
    (if 1 \<le> x then int (floorlog 2 (nat \<lfloor>x\<rfloor>)) - 1
     else - int (floorlog 2 (nat \<lceil>1 / x\<rceil> - 1)))"

lemma flog2_ge1:
  assumes "1 \<le> x"
  shows "2 powi flog2 x \<le> x \<and> x < 2 powi (flog2 x + 1)"
proof -
  let ?n = "nat \<lfloor>x\<rfloor>" and ?k = "floorlog 2 (nat \<lfloor>x\<rfloor>)"
  have pos: "0 < ?n" using assms by simp
  have b: "2 ^ (?k - 1) \<le> ?n" "?n < 2 ^ ?k" using floorlog_bounds [of ?n 2] pos by auto
  have k: "0 < ?k" using b pos by (cases ?k) auto
  have n: "(of_nat ?n :: rat) \<le> x" "x < of_nat ?n + 1"
    using assms by (simp_all, linarith+)
  have "(2::rat) ^ (?k - 1) \<le> of_nat ?n" using b(1) by (metis of_nat_le_iff of_nat_numeral of_nat_power)
  moreover have "of_nat ?n + 1 \<le> (2::rat) ^ ?k"
    using b(2) by (metis Suc_leI add.commute of_nat_Suc of_nat_le_iff of_nat_numeral of_nat_power)
  moreover have "flog2 x = int (?k - 1)" "flog2 x + 1 = int ?k"
    using assms k by (auto simp: flog2_def)
  then have "(2::rat) powi flog2 x = 2 ^ (?k - 1)" "(2::rat) powi (flog2 x + 1) = 2 ^ ?k"
    by (simp_all only: power_int_of_nat)
  ultimately show ?thesis using n by linarith
qed

lemma flog2_lt1:
  assumes "0 < x" and "x < 1"
  shows "2 powi flog2 x \<le> x \<and> x < 2 powi (flog2 x + 1)"
proof -
  let ?n = "nat \<lceil>1 / x\<rceil>" and ?k = "floorlog 2 (nat \<lceil>1 / x\<rceil> - 1)"
  have gt: "1 < 1 / x" using assms by simp
  then have "1 < \<lceil>1 / x\<rceil>" by (simp add: less_ceiling_iff)
  then have n2: "1 < ?n" by linarith
  have b: "2 ^ (?k - 1) \<le> ?n - 1" "?n - 1 < 2 ^ ?k" using floorlog_bounds [of "?n - 1" 2] n2 by auto
  have k: "0 < ?k" using b n2 by (cases ?k) auto
  have up: "1 / x \<le> of_nat ?n" using gt by simp
  have lo: "of_nat (?n - 1) < 1 / x"
    using n2 gt ceiling_correct [of "1 / x"] by (simp add: of_nat_diff)
  have "(of_nat ?n :: rat) \<le> 2 ^ ?k"
    using b(2) n2 by (metis Suc_leI Suc_pred' less_trans of_nat_le_iff of_nat_numeral of_nat_power zero_less_one)
  with up have u: "1 / x \<le> 2 ^ ?k" by linarith
  have "(2::rat) ^ (?k - 1) \<le> of_nat (?n - 1)"
    using b(1) by (metis of_nat_le_iff of_nat_numeral of_nat_power)
  with lo have l: "2 ^ (?k - 1) < 1 / x" by linarith
  have e: "flog2 x = - int ?k" "flog2 x + 1 = - int (?k - 1)" using assms k by (auto simp: flog2_def)
  have "(2::rat) powi flog2 x = 1 / 2 ^ ?k"
    unfolding e(1) by (simp only: power_int_minus power_int_of_nat inverse_eq_divide)
  moreover have "(2::rat) powi (flog2 x + 1) = 1 / 2 ^ (?k - 1)"
    unfolding e(2) by (simp only: power_int_minus power_int_of_nat inverse_eq_divide)
  moreover have "1 / 2 ^ ?k \<le> x" "x < 1 / 2 ^ (?k - 1)"
    using u l assms by (simp_all add: field_simps)
  ultimately show ?thesis by simp
qed

lemma flog2_bounds: "0 < x \<Longrightarrow> 2 powi flog2 x \<le> x \<and> x < 2 powi (flog2 x + 1)"
  using flog2_ge1 [of x] flog2_lt1 [of x] by linarith

lemma powi2_less_iff: "(2::rat) powi a < 2 powi b \<longleftrightarrow> a < b"
  by (metis linorder_not_less one_less_numeral_iff order_less_le power_int_strict_increasing
      power_int_increasing semiring_norm(76))

lemma flog2_unique:
  assumes "0 < x" "2 powi e \<le> x" "x < 2 powi (e + 1)"
  shows "flog2 x = e"
proof -
  have "(2::rat) powi e < 2 powi (flog2 x + 1)" "(2::rat) powi flog2 x < 2 powi (e + 1)"
    using flog2_bounds [OF assms(1)] assms by linarith+
  then show ?thesis by (simp add: powi2_less_iff)
qed

section \<open>Rounding to 53 bits\<close>

definition rnd_pos :: "rat \<Rightarrow> rat" where
  "rnd_pos x = (let e = flog2 x - 52 in of_int (round_half_even (x / 2 powi e)) * 2 powi e)"

definition rnd :: "rat \<Rightarrow> rat" where
  "rnd x = (if x = 0 then 0 else if x < 0 then - rnd_pos (- x) else rnd_pos x)"

lemma powi2_pos [simp]: "0 < (2::rat) powi e"
  by (simp add: zero_less_power_int)

lemma powi2_shift: "(2::rat) powi (e + int n) = 2 ^ n * 2 powi e"
  by (simp add: power_int_add)

lemma powi2_52:
  "(2::rat) powi e = 2 ^ 52 * 2 powi (e - 52)" "(2::rat) powi (e + 1) = 2 ^ 53 * 2 powi (e - 52)"
proof -
  have "e = e - 52 + int 52" "e + 1 = e - 52 + int 53" by simp_all
  then show "(2::rat) powi e = 2 ^ 52 * 2 powi (e - 52)"
      "(2::rat) powi (e + 1) = 2 ^ 53 * 2 powi (e - 52)"
    by (metis powi2_shift)+
qed

lemma int_rat_pow:
  "(2::rat) ^ n \<le> of_int m \<longleftrightarrow> 2 ^ n \<le> m" "of_int m \<le> (2::rat) ^ n \<longleftrightarrow> m \<le> 2 ^ n"
  "of_int m < (2::rat) ^ n \<longleftrightarrow> m < 2 ^ n"
proof -
  have "(2::rat) ^ n = of_int (2 ^ n)" by simp
  then show "(2::rat) ^ n \<le> of_int m \<longleftrightarrow> 2 ^ n \<le> m" "of_int m \<le> (2::rat) ^ n \<longleftrightarrow> m \<le> 2 ^ n"
      "of_int m < (2::rat) ^ n \<longleftrightarrow> m < 2 ^ n"
    by (simp_all only: of_int_le_iff of_int_less_iff)
qed

lemma rnd_pos_bounds:
  assumes "0 < x"
  shows "2 powi flog2 x \<le> rnd_pos x \<and> rnd_pos x \<le> 2 powi (flog2 x + 1)"
proof -
  define q :: rat where "q = 2 powi (flog2 x - 52)"
  define m where "m = round_half_even (x / q)"
  have q: "0 < q" by (simp add: q_def)
  note p = powi2_52 [of "flog2 x", folded q_def]
  have "2 ^ 52 * q \<le> x" "x \<le> 2 ^ 53 * q"
    using flog2_bounds [OF assms] unfolding p by simp_all
  then have "of_int (2 ^ 52) \<le> x / q" "x / q \<le> of_int (2 ^ 53)"
    using q by (simp_all add: le_divide_eq divide_le_eq)
  then have "2 ^ 52 \<le> m" "m \<le> 2 ^ 53"
    unfolding m_def using round_half_even_mono round_half_even_int by metis+
  then have "(2::rat) ^ 52 * q \<le> of_int m * q" "of_int m * q \<le> (2::rat) ^ 53 * q"
    using q by (simp_all only: mult_le_cancel_right_pos int_rat_pow)
  moreover have "rnd_pos x = of_int m * q"
    by (simp add: rnd_pos_def Let_def m_def q_def)
  ultimately show ?thesis unfolding p by simp
qed

lemma rnd_pos_gt0: "0 < x \<Longrightarrow> 0 < rnd_pos x"
  using rnd_pos_bounds [of x] powi2_pos [of "flog2 x"] by linarith

lemma rnd_pos_mono:
  assumes "0 < x" and "x \<le> y"
  shows "rnd_pos x \<le> rnd_pos y"
proof (cases "flog2 x = flog2 y")
  case True
  let ?p = "(2::rat) powi (flog2 y - 52)"
  have "x / ?p \<le> y / ?p" using assms by (simp add: divide_right_mono less_imp_le)
  then have "round_half_even (x / ?p) \<le> round_half_even (y / ?p)" by (rule round_half_even_mono)
  then show ?thesis using True by (simp add: rnd_pos_def Let_def)
next
  case False
  have y: "0 < y" using assms by linarith
  have "(2::rat) powi flog2 x < 2 powi (flog2 y + 1)"
    using flog2_bounds [OF assms(1)] flog2_bounds [OF y] assms(2) by linarith
  then have "flog2 x + 1 \<le> flog2 y" using False by (simp add: powi2_less_iff)
  then have "(2::rat) powi (flog2 x + 1) \<le> 2 powi flog2 y" by (simp add: power_int_increasing)
  then show ?thesis using rnd_pos_bounds [OF assms(1)] rnd_pos_bounds [OF y] by linarith
qed

lemma rnd_0 [simp]: "rnd 0 = 0"
  by (simp add: rnd_def)

lemma rnd_nonneg: "0 \<le> x \<Longrightarrow> 0 \<le> rnd x"
  using rnd_pos_gt0 [of x] by (auto simp: rnd_def)

lemma rnd_eq_0_iff: "0 \<le> x \<Longrightarrow> rnd x = 0 \<longleftrightarrow> x = 0"
  using rnd_pos_gt0 [of x] by (auto simp: rnd_def)

lemma rnd_mono: "0 \<le> x \<Longrightarrow> x \<le> y \<Longrightarrow> rnd x \<le> rnd y"
  using rnd_pos_mono [of x y] rnd_nonneg [of y] by (auto simp: rnd_def)

text \<open>A value with at most 53 significant bits is not changed.\<close>

lemma rnd_pos_exact:
  assumes "2 ^ 52 \<le> m" "m < 2 ^ 53" "x = of_int m * 2 powi e"
  shows "rnd_pos x = x"
proof -
  define q :: rat where "q = 2 powi e"
  have q: "0 < q" by (simp add: q_def)
  have x: "x = of_int m * q" using assms(3) by (simp add: q_def)
  have p: "(2::rat) powi (e + 52) = 2 ^ 52 * q" "(2::rat) powi (e + 52 + 1) = 2 ^ 53 * q"
    using powi2_52 [of "e + 52"] by (simp_all add: q_def)
  have m: "2 ^ 52 * q \<le> x" "x < 2 ^ 53 * q"
    using assms(1,2) q unfolding x
    by (simp_all only: mult_le_cancel_right_pos mult_less_cancel_right_pos int_rat_pow)
  have "0 < 2 ^ 52 * q" using q by simp
  then have "0 < x" using m(1) by (rule less_le_trans)
  then have "flog2 x = e + 52" using m by (intro flog2_unique) (simp_all only: p)
  then show ?thesis using q by (simp add: rnd_pos_def x q_def)
qed

lemma rnd_pos_idem:
  assumes "0 < x"
  shows "rnd_pos (rnd_pos x) = rnd_pos x"
proof -
  define e where "e = flog2 x - 52"
  define m where "m = round_half_even (x / 2 powi e)"
  have r: "rnd_pos x = of_int m * 2 powi e" by (simp add: rnd_pos_def Let_def m_def e_def)
  have "(2::rat) ^ 52 * 2 powi e \<le> of_int m * 2 powi e" "of_int m * 2 powi e \<le> (2::rat) ^ 53 * 2 powi e"
    using rnd_pos_bounds [OF assms] powi2_52 [of "flog2 x"] unfolding r e_def by simp_all
  then have m: "2 ^ 52 \<le> m" "m \<le> 2 ^ 53"
    by (simp_all only: mult_le_cancel_right_pos int_rat_pow powi2_pos)
  show ?thesis
  proof (cases "m = 2 ^ 53")
    case True
    have "rnd_pos x = of_int (2 ^ 52) * 2 powi (e + 1)"
      unfolding r True by (simp add: power_int_add)
    then show ?thesis by (intro rnd_pos_exact) auto
  next
    case False
    then show ?thesis using m r by (intro rnd_pos_exact [of m]) auto
  qed
qed

lemma rnd_idem [simp]: "0 \<le> x \<Longrightarrow> rnd (rnd x) = rnd x"
  using rnd_pos_idem [of x] rnd_pos_gt0 [of x] by (auto simp: rnd_def)

lemma rnd_1 [simp]: "rnd 1 = 1"
proof -
  have "rnd_pos 1 = 1"
    by (rule rnd_pos_exact [of "2 ^ 52" _ "- 52"]) (simp_all add: power_int_minus)
  then show ?thesis by (simp add: rnd_def)
qed

section \<open>The operations\<close>

definition f64_of_nat :: "nat \<Rightarrow> rat" where "f64_of_nat n = rnd (of_nat n)"
definition f64_add :: "rat \<Rightarrow> rat \<Rightarrow> rat" where "f64_add a b = rnd (a + b)"
definition f64_div :: "rat \<Rightarrow> rat \<Rightarrow> rat" where "f64_div a b = rnd (a / b)"

lemma f64_nonneg [simp]:
  "0 \<le> f64_of_nat n" "0 \<le> a \<Longrightarrow> 0 \<le> b \<Longrightarrow> 0 \<le> f64_add a b" "0 \<le> a \<Longrightarrow> 0 \<le> b \<Longrightarrow> 0 \<le> f64_div a b"
  by (simp_all add: f64_of_nat_def f64_add_def f64_div_def rnd_nonneg)

lemma f64_of_nat_0 [simp]: "f64_of_nat n = 0 \<longleftrightarrow> n = 0"
  by (simp add: f64_of_nat_def rnd_eq_0_iff)

lemma f64_of_nat_rnd [simp]: "rnd (f64_of_nat n) = f64_of_nat n"
  by (simp add: f64_of_nat_def)

text \<open>Integers below \<open>2^53\<close> are exact.\<close>

lemma f64_of_nat_exact:
  assumes "n < 2 ^ 53"
  shows "f64_of_nat n = of_nat n"
proof (cases "n = 0")
  case True
  then show ?thesis by simp
next
  case False
  then have n: "0 < (of_nat n :: rat)" "1 \<le> (of_nat n :: rat)" by simp_all
  have "(of_nat n :: rat) < 2 ^ 53" using assms by (metis of_nat_less_iff of_nat_numeral of_nat_power)
  then have "(2::rat) powi flog2 (of_nat n) < 2 powi 53" using flog2_bounds [OF n(1)] by simp
  then have e: "flog2 (of_nat n) < 53" by (simp only: powi2_less_iff)
  define k where "k = nat (52 - flog2 (of_nat n))"
  have k: "flog2 (of_nat n :: rat) = 52 - int k" using e by (simp add: k_def)
  define m :: int where "m = int n * 2 ^ k"
  have s: "(2::rat) powi 52 = 2 ^ k * 2 powi (52 - int k)" "(2::rat) powi 53 = 2 ^ k * 2 powi (53 - int k)"
    using powi2_shift [of "52 - int k" k] powi2_shift [of "53 - int k" k] by simp_all
  have "2 powi (52 - int k) \<le> (of_nat n :: rat)" "(of_nat n :: rat) < 2 powi (53 - int k)"
    using flog2_bounds [OF n(1)] by (simp_all add: k)
  then have "(2::rat) powi 52 \<le> of_int m" "of_int m < (2::rat) powi 53"
    unfolding s by (simp_all add: m_def)
  then have m: "2 ^ 52 \<le> m" "m < 2 ^ 53"
    using int_rat_pow(1) [of 52 m] int_rat_pow(3) [of m 53] by simp_all
  have "(of_nat n :: rat) = of_int m * 2 powi (- int k)"
    by (simp add: m_def power_int_minus)
  then have "rnd_pos (of_nat n) = of_nat n" by (rule rnd_pos_exact [OF m])
  then show ?thesis using n by (simp add: f64_of_nat_def rnd_def)
qed

lemma f64_add_ge:
  assumes "rnd a = a" "0 \<le> a" "0 \<le> b"
  shows "a \<le> f64_add a b"
  using rnd_mono [of a "a + b"] assms by (simp add: f64_add_def)

lemma f64_div_le1: "0 \<le> a \<Longrightarrow> a \<le> b \<Longrightarrow> 0 < b \<Longrightarrow> f64_div a b \<le> 1"
  using rnd_mono [of "a / b" 1] by (simp add: f64_div_def)

lemma f64_div_0 [simp]: "f64_div 0 b = 0"
  by (simp add: f64_div_def)

lemma f64_div_eq_0: "0 \<le> a \<Longrightarrow> 0 < b \<Longrightarrow> f64_div a b = 0 \<longleftrightarrow> a = 0"
  by (simp add: f64_div_def rnd_eq_0_iff)

end
