(* ===== verification/Binary.thy ===== *)
theory Binary imports GoPath GoFloat begin

text \<open>
  \<open>internal/soloist/binary.go\<close>: finding, downloading, checking and deleting the Soloist
  binary. The operations run on the file system of the container. What the network, the
  decompressor, the search path and the operating system answer is the record \<open>outside\<close>;
  everything the code does with these answers, in order, is modelled. The log lines are not,
  except the level \<open>checkAge\<close> logs at, which is its only result.
\<close>

section \<open>The download address\<close>

definition cdnBase :: string where "cdnBase = ''https://soloist-builds.spotifycdn.com''"
definition binaryName :: string where "binaryName = ''soloist''"

definition cdnURL :: "string \<Rightarrow> string result" where
  "cdnURL arch =
    (if arch = ''amd64'' then Inr (cdnBase @ ''/soloist_release_x86_64.tar.gz'')
     else if arch = ''arm64'' then Inr (cdnBase @ ''/soloist_release_arm64.tar.gz'')
     else if arch = ''arm'' then Inr (cdnBase @ ''/soloist_release_arm32.tar.gz'')
     else Inl (ErrText (''unsupported architecture: '' @ arch)))"

section \<open>The world outside\<close>

text \<open>
  An entry of a tarball: its name, the bytes the reader delivers, and the error that ends the
  copy, if any. A tarball is its entries and the error \<open>Next\<close> returns after them, \<open>None\<close> for
  the end of the archive.
\<close>

record tar_entry =
  tar_name :: string
  tar_data :: string
  copy_err :: goerror

record response =
  status_ok :: bool
  status :: string
  gzip_err :: goerror
  entries :: "tar_entry list"
  next_err :: goerror

record outside =
  goarch :: string
  look_path :: "string option"
  http_get :: "string \<Rightarrow> response result"
  mkdir_err :: goerror
  open_err :: goerror
  close_err :: goerror
  version_run :: "string \<Rightarrow> inode option \<Rightarrow> string \<times> goerror"
  clock :: int

record BinaryManager =
  ExplicitPath :: string
  BinDataDir :: string

definition data_path :: "BinaryManager \<Rightarrow> string" where
  "data_path b = path_Join [BinDataDir b, ''bin'', binaryName]"

section \<open>Extraction\<close>

definition wrapped :: "string \<Rightarrow> goerror \<Rightarrow> goerror" where
  "wrapped msg e = map_option (ErrWrap msg) e"

text \<open>Opening for writing creates or truncates the file; the copy writes what was delivered.\<close>

definition write_entry :: "outside \<Rightarrow> string \<Rightarrow> tar_entry \<Rightarrow> fs \<Rightarrow> goerror \<times> fs" where
  "write_entry w dest t f =
    (case open_err w of
       Some e \<Rightarrow> (Some (ErrWrap (''create '' @ dest) e), f)
     | None \<Rightarrow>
        (let f' = f(dest := Some \<lparr>is_dir = False, content = tar_data t, mtime = clock w\<rparr>)
         in case copy_err t of
              Some e \<Rightarrow> (Some (ErrWrap (''write '' @ dest) e), f')
            | None \<Rightarrow> (close_err w, f')))"

fun extract_entries :: "outside \<Rightarrow> string \<Rightarrow> goerror \<Rightarrow> tar_entry list \<Rightarrow> fs \<Rightarrow> goerror \<times> fs" where
  "extract_entries w dest nxt [] f =
    (case nxt of Some e \<Rightarrow> (Some (ErrWrap ''tar next'' e), f)
     | None \<Rightarrow> (Some (ErrText ''soloist binary not found in tarball''), f))"
| "extract_entries w dest nxt (t # ts) f =
    (if tar_name t \<noteq> binaryName then extract_entries w dest nxt ts f else write_entry w dest t f)"

definition extractBinary :: "outside \<Rightarrow> response \<Rightarrow> string \<Rightarrow> fs \<Rightarrow> goerror \<times> fs" where
  "extractBinary w r dest f =
    (case gzip_err r of
       Some e \<Rightarrow> (Some (ErrWrap ''gzip reader'' e), f)
     | None \<Rightarrow> extract_entries w dest (next_err r) (entries r) f)"

section \<open>Download\<close>

definition download :: "outside \<Rightarrow> BinaryManager \<Rightarrow> fs \<Rightarrow> string \<times> goerror \<times> fs" where
  "download w b f =
    (case cdnURL (goarch w) of
       Inl e \<Rightarrow> ([], Some e, f)
     | Inr url \<Rightarrow>
       (case http_get w url of
          Inl e \<Rightarrow> ([], Some (ErrWrap (''GET '' @ url) e), f)
        | Inr r \<Rightarrow>
          (if \<not> status_ok r then ([], Some (ErrText (''GET '' @ url @ '': unexpected status '' @ status r)), f)
           else
             let dest = data_path b
             in case os_MkdirAll (mkdir_err w) (clock w) (path_Dir dest) f of
                  (Some e, f1) \<Rightarrow> ([], Some (ErrWrap ''create bin dir'' e), f1)
                | (None, f1) \<Rightarrow>
                   (case extractBinary w r dest f1 of
                      (Some e, f2) \<Rightarrow> ([], Some (ErrWrap ''extract binary'' e), f2)
                    | (None, f2) \<Rightarrow> (dest, None, f2)))))"

definition smokeTest :: "outside \<Rightarrow> string \<Rightarrow> fs \<Rightarrow> goerror" where
  "smokeTest w path f =
    (case version_run w path (f path) of
       (out, Some e) \<Rightarrow> Some (ErrWrap (''soloist smoke test failed ('' @ out @ '')'') e)
     | (out, None) \<Rightarrow> None)"

section \<open>Age\<close>

datatype age_level = NoAge | AgeOk int | AgeWarn int | AgeExpired int

definition expiryDays :: int where "expiryDays = 90"
definition warnDays :: int where "warnDays = 80"

text \<open>\<open>Duration.Hours\<close>: whole hours plus the rest, in floating point; the division by 24 and
  the conversion to \<open>int\<close>, which truncates. A modification time in the future gives a negative
  duration; its magnitude is rounded in the same way.\<close>

definition Hours :: "nat \<Rightarrow> rat" where
  "Hours d = f64_add (f64_of_nat (d div 3600000000000))
                     (f64_div (f64_of_nat (d mod 3600000000000)) (f64_of_nat 3600000000000))"

definition age_days :: "int \<Rightarrow> int" where
  "age_days age =
    (let m = \<lfloor>f64_div (Hours (nat \<bar>age\<bar>)) (f64_of_nat 24)\<rfloor> in if age < 0 then - m else m)"

definition checkAge :: "outside \<Rightarrow> string \<Rightarrow> fs \<Rightarrow> age_level" where
  "checkAge w path f =
    (case os_Stat f path of
       Inl e \<Rightarrow> NoAge
     | Inr info \<Rightarrow>
       (let days = age_days (max (- (2 ^ 63)) (min (2 ^ 63 - 1) (clock w - mtime info)))
        in if days \<ge> expiryDays then AgeExpired days
           else if days \<ge> warnDays then AgeWarn days else AgeOk days))"

section \<open>Resolution and deletion\<close>

definition Resolve :: "outside \<Rightarrow> BinaryManager \<Rightarrow> fs \<Rightarrow> string \<times> goerror \<times> fs" where
  "Resolve w b f =
    (if ExplicitPath b \<noteq> [] then (ExplicitPath b, smokeTest w (ExplicitPath b) f, f)
     else case look_path w of
       Some p \<Rightarrow> (p, smokeTest w p f, f)
     | None \<Rightarrow>
       (case os_Stat f (data_path b) of
          Inr i \<Rightarrow> (data_path b, smokeTest w (data_path b) f, f)
        | Inl e \<Rightarrow>
          (case download w b f of
             (p, Some e, f') \<Rightarrow> ([], Some (ErrWrap ''download soloist'' e), f')
           | (p, None, f') \<Rightarrow> (p, smokeTest w p f', f'))))"

definition DeleteBinary :: "goerror \<Rightarrow> BinaryManager \<Rightarrow> fs \<Rightarrow> fs" where
  "DeleteBinary refusal b f = snd (os_Remove refusal (data_path b) f)"

section \<open>Facts about the file system steps\<close>

lemma write_entry_other: "write_entry w dest t f = (e, f') \<Longrightarrow> q \<noteq> dest \<Longrightarrow> f' q = f q"
  by (auto simp: write_entry_def Let_def split: option.splits)

lemma write_entry_ok:
  "write_entry w dest t f = (None, f') \<Longrightarrow>
    open_err w = None \<and> copy_err t = None
    \<and> f' dest = Some \<lparr>is_dir = False, content = tar_data t, mtime = clock w\<rparr>"
  by (auto simp: write_entry_def Let_def split: option.splits)

lemma extract_entries_find:
  "extract_entries w dest nxt ts f =
    (case find (\<lambda>t. tar_name t = binaryName) ts of
       Some t \<Rightarrow> write_entry w dest t f
     | None \<Rightarrow> extract_entries w dest nxt [] f)"
  by (induction ts) auto

lemma extractBinary_ok:
  assumes "extractBinary w r dest f = (None, f')"
  shows "\<exists>t. find (\<lambda>t. tar_name t = binaryName) (entries r) = Some t \<and> copy_err t = None
    \<and> f' dest = Some \<lparr>is_dir = False, content = tar_data t, mtime = clock w\<rparr>"
  using assms write_entry_ok
  by (auto simp: extractBinary_def extract_entries_find [of w dest "next_err r" "entries r"]
      split: option.splits)

lemma extractBinary_other: "extractBinary w r dest f = (e, f') \<Longrightarrow> q \<noteq> dest \<Longrightarrow> f' q = f q"
  using write_entry_other
  by (auto simp: extractBinary_def extract_entries_find [of w dest "next_err r" "entries r"]
      split: option.splits)

lemma download_other:
  assumes "download w b f = (p, e, f')" and "q \<noteq> data_path b" and "f q \<noteq> None"
  shows "f' q = f q"
  using assms extractBinary_other os_MkdirAll_keeps
  by (auto simp: download_def Let_def split: sum.splits if_splits prod.splits option.splits) metis+

lemma download_ok:
  assumes "download w b f = (p, None, f')"
  shows "p = data_path b \<and> (\<exists>url r t. cdnURL (goarch w) = Inr url \<and> http_get w url = Inr r \<and> status_ok r
    \<and> find (\<lambda>t. tar_name t = binaryName) (entries r) = Some t \<and> copy_err t = None
    \<and> f' p = Some \<lparr>is_dir = False, content = tar_data t, mtime = clock w\<rparr>)"
  using assms extractBinary_ok
  by (auto simp: download_def Let_def split: sum.splits if_splits prod.splits option.splits)

section \<open>Properties\<close>

text \<open>resolution prefers what is present: with an explicit path, a binary on the search
  path or a file in the data directory, the network is never consulted and nothing on disk
  changes, and the path returned is the first of the three that applies.\<close>

theorem Resolve_local:
  assumes "ExplicitPath b \<noteq> [] \<or> look_path w \<noteq> None \<or> f (data_path b) \<noteq> None"
  shows "(\<exists>e. Resolve w b f =
      (if ExplicitPath b \<noteq> [] then ExplicitPath b
       else case look_path w of Some p \<Rightarrow> p | None \<Rightarrow> data_path b, e, f))
    \<and> (\<forall>g. Resolve (w\<lparr>http_get := g\<rparr>) b f = Resolve w b f)"
  using assms by (auto simp: Resolve_def smokeTest_def os_Stat_def split: option.splits)


text \<open>C40: an interrupted download is never repaired. When the copy of the \<open>soloist\<close> entry
  breaks off (after any number of bytes), \<open>Resolve\<close> fails but leaves the truncated file in the data
  directory, and every later \<open>Resolve\<close> without a binary on the search path takes that file for the
  binary and does not download again, whatever the network offers by then.\<close>

theorem interrupted_download_sticks:
  assumes "ExplicitPath b = []" and "look_path w = None" and "f (data_path b) = None"
    and "cdnURL (goarch w) = Inr url" and "http_get w url = Inr r" and "status_ok r" and "gzip_err r = None"
    and "os_MkdirAll (mkdir_err w) (clock w) (path_Dir (data_path b)) f = (None, f0)"
    and "find (\<lambda>t. tar_name t = binaryName) (entries r) = Some t" and "open_err w = None" and "copy_err t = Some e"
    and "look_path w' = None"
  shows "\<exists>err f1. Resolve w b f = ([], Some err, f1)
    \<and> map_option content (f1 (data_path b)) = Some (tar_data t)
    \<and> Resolve w' b f1 = (data_path b, smokeTest w' (data_path b) f1, f1)"
proof -
  let ?f1 = "f0(data_path b := Some \<lparr>is_dir = False, content = tar_data t, mtime = clock w\<rparr>)"
  have "write_entry w (data_path b) t f0 = (Some (ErrWrap (''write '' @ data_path b) e), ?f1)"
    using assms(10,11) by (simp add: write_entry_def Let_def)
  then obtain err where "Resolve w b f = ([], Some err, ?f1)"
    using assms(1-9) by (simp add: Resolve_def os_Stat_def download_def Let_def extractBinary_def
        extract_entries_find [of w "data_path b" "next_err r" "entries r"])
  moreover have "Resolve w' b ?f1 = (data_path b, smokeTest w' (data_path b) ?f1, ?f1)"
    using assms(1,12) by (simp add: Resolve_def os_Stat_def)
  ultimately show ?thesis by (intro exI [of _ err] exI [of _ ?f1]) simp
qed

text \<open>deleting the expired binary removes the data-directory copy and nothing else, so the
  next resolution downloads afresh when that copy was the one in use; but a binary given
  explicitly or found on the search path is resolved again unchanged.\<close>

theorem DeleteBinary_redownloads:
  "DeleteBinary r b f = (if r = None then f(data_path b := None) else f)
   \<and> Resolve w b (DeleteBinary None b f) =
      (if ExplicitPath b \<noteq> []
       then (ExplicitPath b, smokeTest w (ExplicitPath b) (DeleteBinary None b f), DeleteBinary None b f)
       else case look_path w of
         Some p \<Rightarrow> (p, smokeTest w p (DeleteBinary None b f), DeleteBinary None b f)
       | None \<Rightarrow> (case download w b (DeleteBinary None b f) of
           (p, Some e, f') \<Rightarrow> ([], Some (ErrWrap ''download soloist'' e), f')
         | (p, None, f') \<Rightarrow> (p, smokeTest w p f', f')))"
proof -
  have d: "DeleteBinary r b f = (if r = None then f(data_path b := None) else f)" for r
    by (auto simp: DeleteBinary_def os_Remove_def fun_eq_iff split: option.splits)
  then have "(DeleteBinary None b f) (data_path b) = None" by simp
  then show ?thesis by (intro conjI d) (simp add: Resolve_def os_Stat_def split: option.split)
qed

section \<open>The age thresholds\<close>

lemma f64_div_mono: "0 \<le> a \<Longrightarrow> a \<le> b \<Longrightarrow> 0 < c \<Longrightarrow> f64_div a c \<le> f64_div b c"
  by (simp add: f64_div_def rnd_mono divide_right_mono)

lemma f64_add_mono: "0 \<le> a \<Longrightarrow> a \<le> a' \<Longrightarrow> 0 \<le> b \<Longrightarrow> b \<le> b' \<Longrightarrow> f64_add a b \<le> f64_add a' b'"
  by (simp add: f64_add_def rnd_mono add_mono)

lemma f64_of_nat_mono: "m \<le> n \<Longrightarrow> f64_of_nat m \<le> f64_of_nat n"
  by (simp add: f64_of_nat_def rnd_mono)

lemma Hours_lower: "24 * k * 3600000000000 \<le> d \<Longrightarrow> k < 1000 \<Longrightarrow> of_nat (24 * k) \<le> Hours d"
proof -
  assume d: "24 * k * 3600000000000 \<le> d" and k: "k < 1000"
  have "24 * k \<le> d div 3600000000000" using d by (simp add: less_eq_div_iff_mult_less_eq)
  then have "f64_of_nat (24 * k) \<le> f64_of_nat (d div 3600000000000)" by (rule f64_of_nat_mono)
  moreover have "f64_of_nat (24 * k) = of_nat (24 * k)" using k by (intro f64_of_nat_exact) simp
  moreover have "f64_of_nat (d div 3600000000000) \<le> Hours d"
    unfolding Hours_def by (rule f64_add_ge) simp_all
  ultimately show ?thesis by simp
qed

text \<open>The largest value below \<open>h\<close> full hours.\<close>

definition hours_below :: "nat \<Rightarrow> rat" where
  "hours_below h = f64_add (f64_of_nat (h - 1)) (f64_div (f64_of_nat 3599999999999) (f64_of_nat 3600000000000))"

lemma Hours_upper: "d < h * 3600000000000 \<Longrightarrow> Hours d \<le> hours_below h"
proof -
  assume d: "d < h * 3600000000000"
  have q: "d div 3600000000000 \<le> h - 1"
    using less_mult_imp_div_less [OF d] by linarith
  have r: "d mod 3600000000000 \<le> 3599999999999"
    using mod_less_divisor [of 3600000000000 d] by linarith
  have "0 < f64_of_nat 3600000000000" using f64_of_nat_exact [of 3600000000000] by simp
  then show ?thesis unfolding Hours_def hours_below_def
    by (intro f64_add_mono f64_div_mono f64_of_nat_mono q r) simp_all
qed

lemma round_half_even_lt: "y < of_int m - 1 / 2 \<Longrightarrow> round_half_even y \<le> m - 1"
proof -
  assume y: "y < of_int m - 1 / 2"
  have lt: "\<lfloor>y\<rfloor> < m" using y by (simp add: floor_less_iff)
  show ?thesis
  proof (cases "\<lfloor>y\<rfloor> = m - 1")
    case True
    then have "y - of_int \<lfloor>y\<rfloor> < 1 / 2" using y by simp
    then show ?thesis using lt by (simp add: round_half_even_def Let_def)
  next
    case False
    then show ?thesis using lt round_half_even_bounds [of y] by linarith
  qed
qed

text \<open>Rounding inside one binade: a value more than half a unit below a grid point stays below.\<close>

lemma rnd_lt:
  assumes "2 ^ k \<le> x" "x < 2 ^ Suc k" "k \<le> 52" "x * 2 ^ (52 - k) < of_int m - 1 / 2"
  shows "rnd x \<le> (of_int m - 1) / 2 ^ (52 - k)"
proof -
  have pos: "0 < x" using assms(1) by (meson less_le_trans zero_less_numeral zero_less_power)
  have "flog2 x = int k"
    using assms(1,2) pos by (intro flog2_unique) (simp_all add: power_int_add)
  then have e: "flog2 x - 52 = - int (52 - k)" using assms(3) by simp
  have u: "(2::rat) powi (flog2 x - 52) = 1 / 2 ^ (52 - k)"
    unfolding e by (simp only: power_int_minus power_int_of_nat inverse_eq_divide)
  have "rnd x = of_int (round_half_even (x * 2 ^ (52 - k))) / 2 ^ (52 - k)"
    using pos by (simp add: rnd_def rnd_pos_def u Let_def)
  moreover have "(of_int (round_half_even (x * 2 ^ (52 - k))) :: rat) \<le> of_int (m - 1)"
    using round_half_even_lt [OF assms(4)] by (simp only: of_int_le_iff)
  ultimately show ?thesis by (simp add: divide_right_mono)
qed

lemma last_nanosecond:
  "rnd (3599999999999 / 3600000000000) \<le> (2 ^ 53 - 2501) / 2 ^ 53"
proof -
  have "rnd ((2 ^ 53 - 2501) / 2 ^ 53) = ((2 ^ 53 - 2501) / 2 ^ 53 :: rat)"
    unfolding rnd_def
    using rnd_pos_exact [of "2 ^ 53 - 2501" "(2 ^ 53 - 2501) / 2 ^ 53" "- 53"]
    by (simp add: power_int_minus)
  moreover have "rnd (3599999999999 / 3600000000000) \<le> rnd ((2 ^ 53 - 2501) / 2 ^ 53)"
    by (rule rnd_mono) simp_all
  ultimately show ?thesis by simp
qed

lemma below_thresholds:
  "f64_div (hours_below 1920) (f64_of_nat 24) < 80" "f64_div (hours_below 2160) (f64_of_nat 24) < 90"
proof -
  let ?z = "(2 ^ 53 - 2501) / 2 ^ 53 :: rat"
  have ex: "f64_of_nat n = of_nat n" if "n < 10000000000000" for n
    using that by (intro f64_of_nat_exact) simp
  have z: "f64_div (f64_of_nat 3599999999999) (f64_of_nat 3600000000000) \<le> ?z"
    using last_nanosecond by (simp add: f64_div_def ex)
  have nn: "0 \<le> f64_div (f64_of_nat 3599999999999) (f64_of_nat 3600000000000)" by simp
  have "hours_below 1920 \<le> rnd (1919 + ?z)" "hours_below 2160 \<le> rnd (2159 + ?z)"
    unfolding hours_below_def f64_add_def using z nn by (auto intro!: rnd_mono simp: ex)
  moreover have "rnd (1919 + ?z) \<le> 1920 - 1 / 2 ^ 42"
    using rnd_lt [of 10 "1919 + ?z" "1920 * 2 ^ 42"] by simp
  moreover have "rnd (2159 + ?z) \<le> 2160 - 1 / 2 ^ 41"
    using rnd_lt [of 11 "2159 + ?z" "2160 * 2 ^ 41"] by simp
  ultimately have h: "hours_below 1920 \<le> 1920 - 1 / 2 ^ 42" "hours_below 2160 \<le> 2160 - 1 / 2 ^ 41"
    by linarith+
  have hn: "0 \<le> hours_below n" for n unfolding hours_below_def by simp
  have "f64_div (hours_below 1920) (f64_of_nat 24) \<le> rnd ((1920 - 1 / 2 ^ 42) / 24)"
    unfolding f64_div_def using h hn by (auto intro!: rnd_mono divide_right_mono simp: ex)
  also have "\<dots> \<le> 80 - 1 / 2 ^ 46"
    using rnd_lt [of 6 "(1920 - 1 / 2 ^ 42) / 24" "80 * 2 ^ 46"] by simp
  finally show "f64_div (hours_below 1920) (f64_of_nat 24) < 80" by simp
  have "f64_div (hours_below 2160) (f64_of_nat 24) \<le> rnd ((2160 - 1 / 2 ^ 41) / 24)"
    unfolding f64_div_def using h hn by (auto intro!: rnd_mono divide_right_mono simp: ex)
  also have "\<dots> \<le> 90 - 1 / 2 ^ 46"
    using rnd_lt [of 6 "(2160 - 1 / 2 ^ 41) / 24" "90 * 2 ^ 46"] by simp
  finally show "f64_div (hours_below 2160) (f64_of_nat 24) < 90" by simp
qed

lemma age_days_threshold:
  assumes "k < 1000" and below: "f64_div (hours_below (24 * k)) (f64_of_nat 24) < of_nat k"
  shows "int k \<le> age_days (int d) \<longleftrightarrow> 24 * k * 3600000000000 \<le> d"
proof -
  have c24: "f64_of_nat 24 = 24" using f64_of_nat_exact [of 24] by simp
  have hn: "0 \<le> Hours d" by (simp add: Hours_def)
  have k: "f64_of_nat k = of_nat k" using assms(1) by (intro f64_of_nat_exact) simp
  have "of_nat k \<le> f64_div (Hours d) (f64_of_nat 24) \<longleftrightarrow> 24 * k * 3600000000000 \<le> d"
  proof
    assume ge: "24 * k * 3600000000000 \<le> d"
    have "rnd (of_nat (24 * k) / 24) \<le> f64_div (Hours d) (f64_of_nat 24)"
      unfolding f64_div_def c24 using Hours_lower [OF ge assms(1)] by (intro rnd_mono divide_right_mono) simp_all
    moreover have "rnd (of_nat (24 * k) / 24) = of_nat k" using k by (simp add: f64_of_nat_def)
    ultimately show "of_nat k \<le> f64_div (Hours d) (f64_of_nat 24)" by simp
  next
    assume le: "of_nat k \<le> f64_div (Hours d) (f64_of_nat 24)"
    show "24 * k * 3600000000000 \<le> d"
    proof (rule ccontr)
      assume "\<not> ?thesis"
      then have "Hours d \<le> hours_below (24 * k)" by (intro Hours_upper) simp
      then have "f64_div (Hours d) (f64_of_nat 24) \<le> f64_div (hours_below (24 * k)) (f64_of_nat 24)"
        using hn by (intro f64_div_mono) (simp_all add: c24)
      with le below show False by linarith
    qed
  qed
  moreover have "int k \<le> age_days (int d) \<longleftrightarrow> of_nat k \<le> f64_div (Hours d) (f64_of_nat 24)"
    by (simp add: age_days_def Let_def le_floor_iff)
  ultimately show ?thesis by simp
qed

text \<open>the age report is exact at its thresholds although it is computed in floating point:
  a binary is reported expired from exactly 90 days of age on, about to expire from exactly
  80 days on, to the nanosecond.\<close>

theorem checkAge_thresholds:
  assumes "f path = Some i" and "clock w - mtime i = int d" and "d < 2 ^ 63"
  shows "((\<exists>n. checkAge w path f = AgeExpired n) \<longleftrightarrow> 90 * 24 * 3600000000000 \<le> d)
    \<and> ((\<exists>n. checkAge w path f = AgeWarn n) \<longleftrightarrow>
        80 * 24 * 3600000000000 \<le> d \<and> d < 90 * 24 * 3600000000000)"
proof -
  have "max (- (2 ^ 63)) (min (2 ^ 63 - 1) (clock w - mtime i)) = int d" using assms(2,3) by simp
  then have c: "checkAge w path f =
      (if 90 \<le> age_days (int d) then AgeExpired (age_days (int d))
       else if 80 \<le> age_days (int d) then AgeWarn (age_days (int d)) else AgeOk (age_days (int d)))"
    using assms(1) by (simp add: checkAge_def os_Stat_def expiryDays_def warnDays_def Let_def)
  have t: "90 \<le> age_days (int d) \<longleftrightarrow> 90 * 24 * 3600000000000 \<le> d"
      "80 \<le> age_days (int d) \<longleftrightarrow> 80 * 24 * 3600000000000 \<le> d"
    using age_days_threshold [of 90 d] age_days_threshold [of 80 d] below_thresholds by simp_all
  show ?thesis unfolding c t by auto
qed

section \<open>Concrete inputs\<close>

definition demo_entry :: tar_entry where
  "demo_entry = \<lparr>tar_name = ''soloist'', tar_data = ''ELF'', copy_err = None\<rparr>"

definition demo_response :: response where
  "demo_response = \<lparr>status_ok = True, status = ''200 OK'', gzip_err = None,
     entries = [\<lparr>tar_name = ''README'', tar_data = ''x'', copy_err = None\<rparr>, demo_entry], next_err = None\<rparr>"

definition demo_outside :: outside where
  "demo_outside = \<lparr>goarch = ''arm64'', look_path = None, http_get = (\<lambda>_. Inr demo_response),
     mkdir_err = None, open_err = None, close_err = None,
     version_run = (\<lambda>_ i. (''1.0'', case i of Some x \<Rightarrow> if content x = ''ELF'' then None else Some (ErrExit 1)
                                  | None \<Rightarrow> Some (ErrText ''no such file''))),
     clock = 7776000000000000\<rparr>"

definition demo_manager :: BinaryManager where
  "demo_manager = \<lparr>ExplicitPath = [], BinDataDir = ''/data''\<rparr>"

text \<open>The same download, broken off after two bytes.\<close>

definition broken_outside :: outside where
  "broken_outside = demo_outside\<lparr>http_get := (\<lambda>_. Inr (demo_response\<lparr>entries :=
     [\<lparr>tar_name = ''soloist'', tar_data = ''EL'', copy_err = Some (ErrText ''unexpected EOF'')\<rparr>]\<rparr>))\<rparr>"

lemma demo_path: "data_path demo_manager = ''/data/bin/soloist''"
  by code_simp

lemma demo_fields:
  "ExplicitPath demo_manager = []" "look_path demo_outside = None" "goarch demo_outside = ''arm64''"
  "http_get demo_outside url = Inr demo_response" "mkdir_err demo_outside = None"
  "open_err demo_outside = None" "close_err demo_outside = None" "status_ok demo_response"
  "gzip_err demo_response = None"
  "extract_entries w dest nxt (entries demo_response) f = write_entry w dest demo_entry f"
  "tar_data demo_entry = ''ELF''" "copy_err demo_entry = None"
  by (simp_all add: demo_manager_def demo_outside_def demo_response_def demo_entry_def binaryName_def)

theorem Resolve_local_witness:
  "fst (Resolve demo_outside demo_manager ((\<lambda>_. None)(''/data/bin/soloist'' := Some \<lparr>is_dir = False, content = ''ELF'', mtime = 0\<rparr>)))
     = ''/data/bin/soloist''"
  using Resolve_local [of demo_manager demo_outside
      "(\<lambda>_. None)(''/data/bin/soloist'' := Some \<lparr>is_dir = False, content = ''ELF'', mtime = 0\<rparr>)"]
  by (auto simp: demo_path demo_fields)

lemma demo_ancestors: "ancestors (length (path_Dir ''/data/bin/soloist'')) (path_Dir ''/data/bin/soloist'')
    = [''/'', ''/data'', ''/data/bin'']"
  by code_simp

definition demo_dirs :: fs where
  "demo_dirs = (\<lambda>_. None)(''/'' := Some \<lparr>is_dir = True, content = [], mtime = clock demo_outside\<rparr>,
     ''/data'' := Some \<lparr>is_dir = True, content = [], mtime = clock demo_outside\<rparr>,
     ''/data/bin'' := Some \<lparr>is_dir = True, content = [], mtime = clock demo_outside\<rparr>)"

lemma demo_mkdirs:
  "os_MkdirAll None (clock demo_outside) (path_Dir ''/data/bin/soloist'') (\<lambda>_. None) = (None, demo_dirs)"
  by (simp add: os_MkdirAll_def demo_ancestors demo_dirs_def)

lemma demo_url: "cdnURL ''arm64'' = Inr (cdnBase @ ''/soloist_release_arm64.tar.gz'')"
  by (simp add: cdnURL_def)

definition demo_installed :: fs where
  "demo_installed =
    demo_dirs(''/data/bin/soloist'' := Some \<lparr>is_dir = False, content = ''ELF'', mtime = clock demo_outside\<rparr>)"

lemma demo_download:
  "download demo_outside demo_manager (\<lambda>_. None) = (''/data/bin/soloist'', None, demo_installed)"
  using demo_mkdirs
  by (simp add: demo_installed_def download_def demo_path demo_fields demo_url extractBinary_def write_entry_def Let_def)


lemma broken_fields:
  "look_path broken_outside = None" "goarch broken_outside = ''arm64''" "open_err broken_outside = None"
  "mkdir_err broken_outside = None" "clock broken_outside = clock demo_outside"
  by (simp_all add: broken_outside_def demo_fields)

theorem interrupted_download_sticks_witness:
  "\<exists>err f1. Resolve broken_outside demo_manager (\<lambda>_. None) = ([], Some err, f1)
     \<and> map_option content (f1 (data_path demo_manager)) = Some ''EL''
     \<and> Resolve demo_outside demo_manager f1 =
         (data_path demo_manager, smokeTest demo_outside (data_path demo_manager) f1, f1)"
proof -
  let ?t = "\<lparr>tar_name = ''soloist'', tar_data = ''EL'', copy_err = Some (ErrText ''unexpected EOF'')\<rparr>"
  have "http_get broken_outside (cdnBase @ ''/soloist_release_arm64.tar.gz'') = Inr (demo_response\<lparr>entries := [?t]\<rparr>)"
    by (simp add: broken_outside_def)
  from interrupted_download_sticks [OF _ _ _ _ this, where w' = demo_outside and t = ?t
      and b = demo_manager and f = "\<lambda>_. None" and f0 = demo_dirs and e = "ErrText ''unexpected EOF''"]
  show ?thesis
    using demo_mkdirs by (simp add: broken_fields demo_fields demo_url demo_path binaryName_def)
qed

theorem checkAge_thresholds_witness:
  "\<exists>n. checkAge demo_outside ''/b'' ((\<lambda>_. None)(''/b'' := Some \<lparr>is_dir = False, content = [], mtime = 0\<rparr>)) = AgeExpired n"
  using checkAge_thresholds [of "(\<lambda>_. None)(''/b'' := Some \<lparr>is_dir = False, content = [], mtime = 0\<rparr>)" "''/b''"
      "\<lparr>is_dir = False, content = [], mtime = 0\<rparr>" demo_outside 7776000000000000]
  by (simp add: demo_outside_def)

end
