(* ===== verification/ProcessModel.thy ===== *)
theory ProcessModel imports Prelude begin

text \<open>
  \<open>internal/process\<close>: the subprocess interface. A spawned process is what the shim can see
  of it, the error \<open>Wait\<close> returns and the text of its standard output; \<open>ExitCode\<close> reads the
  exit status from that error. \<open>Fake\<close> is the manager the package offers to tests.
\<close>

record proc =
  wait_err :: goerror
  stdout :: string

definition ExitCode :: "goerror \<Rightarrow> int" where
  "ExitCode err =
    (case err of
       None \<Rightarrow> 0
     | Some e \<Rightarrow> (case errors_As_exit e of Some c \<Rightarrow> c | None \<Rightarrow> - 1))"

text \<open>
  \<open>ExecManager.Start\<close>: the pipe and the start of the command may fail; what the operating
  system answers is the argument.
\<close>

definition ExecStart :: "goerror \<Rightarrow> goerror \<Rightarrow> proc \<Rightarrow> proc result" where
  "ExecStart pipe_err start_err p =
    (case pipe_err of
       Some e \<Rightarrow> Inl e
     | None \<Rightarrow> (case start_err of Some e \<Rightarrow> Inl e | None \<Rightarrow> Inr p))"

record Fake =
  ExitErr :: goerror
  StdoutData :: string

text \<open>
  \<open>FakeProcess\<close>: the configured error, as often as it is asked for, and the configured output.
\<close>

record FakeProcess =
  fake_exitErr :: goerror
  fake_stdout :: string

definition FakeStart :: "Fake \<Rightarrow> FakeProcess result" where
  "FakeStart f = Inr \<lparr>fake_exitErr = ExitErr f, fake_stdout = StdoutData f\<rparr>"

definition FakeWait :: "FakeProcess \<Rightarrow> goerror" where
  "FakeWait p = fake_exitErr p"

definition FakeKill :: "FakeProcess \<Rightarrow> goerror" where
  "FakeKill p = None"

definition FakeStdout :: "FakeProcess \<Rightarrow> string" where
  "FakeStdout p = fake_stdout p"

text \<open>
  \<open>execProcess\<close>: a command of \<open>os/exec\<close>. \<open>Wait\<close> blocks until the command has exited and may be called
  once; \<open>Kill\<close> signals it unless its exit was already collected.
\<close>

record execProcess =
  cmd_exited :: "goerror option"
  cmd_waited :: bool
  cmd_killed :: bool
  exec_stdout :: string

definition ExecWait :: "execProcess \<Rightarrow> (goerror \<times> execProcess) option" where
  "ExecWait p =
    (if cmd_waited p then Some (Some (ErrText ''exec: Wait was already called''), p)
     else map_option (\<lambda>r. (r, p\<lparr>cmd_waited := True\<rparr>)) (cmd_exited p))"

definition ExecKill :: "execProcess \<Rightarrow> goerror \<times> execProcess" where
  "ExecKill p =
    (if cmd_waited p then (Some (ErrSentinel ''os: process already finished''), p) else (None, p\<lparr>cmd_killed := True\<rparr>))"

definition ExecStdout :: "execProcess \<Rightarrow> string" where
  "ExecStdout p = exec_stdout p"

text \<open>A fake is a command that has exited, for a caller that waits once, as all callers do.\<close>

definition exited_exec :: "FakeProcess \<Rightarrow> execProcess" where
  "exited_exec p = \<lparr>cmd_exited = Some (fake_exitErr p), cmd_waited = False, cmd_killed = False, exec_stdout = fake_stdout p\<rparr>"

lemma fake_simulates_exec:
  "map_option fst (ExecWait (exited_exec p)) = Some (FakeWait p)"
  "ExecStdout (snd (ExecKill (exited_exec p))) = FakeStdout p" "fst (ExecKill (exited_exec p)) = FakeKill p"
  by (simp_all add: ExecWait_def ExecKill_def exited_exec_def FakeWait_def FakeKill_def FakeStdout_def ExecStdout_def)

text \<open>Only the first \<open>Wait\<close> tells how a command ended, and a \<open>Kill\<close> after it is refused.\<close>

lemma exec_waits_once:
  assumes "ExecWait p = Some (r, q)" and "\<not> cmd_waited p"
  shows "cmd_exited p = Some r" "ExecWait q = Some (Some (ErrText ''exec: Wait was already called''), q)"
    "fst (ExecKill q) \<noteq> None" "snd (ExecKill q) = q"
  using assms by (auto simp: ExecWait_def ExecKill_def)

lemma ExitCode_nil [simp]: "ExitCode None = 0"
  by (simp add: ExitCode_def)

lemma ExitCode_exit [simp]: "ExitCode (Some (ErrExit c)) = c"
  by (simp add: ExitCode_def)

lemma ExitCode_wrap [simp]: "ExitCode (Some (ErrWrap m e)) = ExitCode (Some e)"
  by (simp add: ExitCode_def)

lemma ExitCode_other [simp]:
  "ExitCode (Some (ErrText t)) = -1" "ExitCode (Some (ErrSentinel t)) = -1"
  "ExitCode (Some ErrCanceled) = -1"
  by (simp_all add: ExitCode_def)

lemma ExitCode_ten: "ExitCode (Some e) = 10 \<longleftrightarrow> errors_As_exit e = Some 10"
  by (auto simp: ExitCode_def split: option.splits)

lemma errors_Is_exit_chain:
  "errors_Is e ErrCanceled \<Longrightarrow> errors_As_exit e = None"
  by (induction e) auto

end
