(* ===== verification/Supervisor.thy ===== *)
theory Supervisor imports Connector Binary ProcessModel Backoff begin

text \<open>
  \<open>internal/soloist/supervisor.go\<close>: the supervisor of the Soloist subprocess. \<open>Run\<close> and the
  \<open>runOnce\<close> it calls are a program counter with their local variables; one transition is one
  atomic action of that goroutine (a \<open>select\<close>, a dial, one write) or an event of its
  environment (the process exits, the context is cancelled, another goroutine sends a command
  through the connector). What the operating system and the WebSocket library answer are
  arguments of the actions. History variables record the processes started, the health
  reports, the messages on the wire and the waits of the restart loop.
\<close>

section \<open>Configuration\<close>

record SupConfig =
  BinaryPath :: string
  DeviceName :: string
  APIKey :: string
  DataDir :: string
  CacheDir :: string
  StartBackoff :: duration
  MaxBackoff :: duration
  WSPortTimeout :: duration
  HasCommands :: bool
  HasHealth :: bool
  SupBinary :: "BinaryManager option"
  SupVolume :: int

definition sup_startBackoff :: "SupConfig \<Rightarrow> duration" where
  "sup_startBackoff c = (if sint (StartBackoff c) > 0 then StartBackoff c else 5 * second)"

definition sup_maxBackoff :: "SupConfig \<Rightarrow> duration" where
  "sup_maxBackoff c = (if sint (MaxBackoff c) > 0 then MaxBackoff c else 60 * second)"

definition wsPortTimeout :: "SupConfig \<Rightarrow> duration" where
  "wsPortTimeout c = (if sint (WSPortTimeout c) > 0 then WSPortTimeout c else 15 * second)"

definition defaultDialRetry :: duration where "defaultDialRetry = 1 * second"
definition defaultDialMaxRetry :: duration where "defaultDialMaxRetry = 15 * second"

definition sup_args :: "SupConfig \<Rightarrow> string list" where
  "sup_args c =
    [''--device-name'', DeviceName c, ''--api-key'', APIKey c, ''--data-dir'', DataDir c,
     ''--cache-dir'', CacheDir c, ''--ws'', ''127.0.0.1:0'']
    @ (if SupVolume c > 0 then [''--initial-volume'', Itoa (SupVolume c)] else [])"

definition activateCommand :: message where
  "activateCommand = ''{\"type\":\"command\",\"command\":\"activate\"}''"

section \<open>Addresses\<close>

definition readWSPort :: "fs \<Rightarrow> string \<Rightarrow> string option" where
  "readWSPort f dataDir =
    (case os_ReadFile f (path_Join [dataDir, ''ws.port'']) of
       Inl e \<Rightarrow> None
     | Inr raw \<Rightarrow> (let p = TrimSpace raw in if p = [] then None else Some p))"

text \<open>One tick of \<open>waitWSAddr\<close>: the address once the port is published.\<close>

definition ws_tick :: "fs \<Rightarrow> string \<Rightarrow> string option" where
  "ws_tick f dataDir =
    (case readWSPort f dataDir of
       None \<Rightarrow> None
     | Some port \<Rightarrow>
       (let addr = (case os_ReadFile f (path_Join [dataDir, ''ws.addr'']) of
                      Inl e \<Rightarrow> ''127.0.0.1''
                    | Inr raw \<Rightarrow> (let v = TrimSpace raw in if v \<noteq> [] then v else ''127.0.0.1''))
        in Some (''ws://'' @ JoinHostPort addr port)))"

definition errWSPortTimeout :: goerr where
  "errWSPortTimeout = ErrSentinel ''soloist did not publish ws.port in time''"

section \<open>The state\<close>

text \<open>
  The subprocess: none yet, running, or exited. \<open>killed\<close> records that \<open>Kill\<close> was called on it.
  The channel \<open>waitCh\<close> holds the result of \<open>Wait\<close> until somebody receives it.
\<close>

datatype pstate = NoProc | Running | Exited

datatype sup_pc =
    STop
  | SWait
  | SLoop string
  | SDial string
  | SDialSleep string
  | SActivate string nat
  | SVolume string nat
  | SConsume string nat
  | SAfter string bool
  | SSleep
  | SReturned

record sup_sys =
  spc :: sup_pc
  backoff :: duration
  dialBackoff :: duration
  proc_st :: pstate
  killed :: bool
  waitCh :: "goerror option"
  cmds :: "nat CommandConnector"
  open_conns :: "nat set"
  next_conn :: nat
  sup_cancelled :: bool
  disk :: fs
  starts :: nat
  waits :: "duration list"
  health :: "string list"
  wire :: "(nat \<times> message) list"
  expired :: bool
  exited_with :: "goerror list"

definition sup_init :: "SupConfig \<Rightarrow> fs \<Rightarrow> sup_sys" where
  "sup_init c f =
    \<lparr>spc = STop, backoff = sup_startBackoff c, dialBackoff = defaultDialRetry, proc_st = NoProc,
     killed = False, waitCh = None, cmds = new_connector, open_conns = {}, next_conn = 0,
     sup_cancelled = False, disk = f, starts = 0, waits = [], health = [], wire = [],
     expired = False, exited_with = []\<rparr>"

section \<open>The pieces of runOnce\<close>

definition setHealth :: "SupConfig \<Rightarrow> string \<Rightarrow> sup_sys \<Rightarrow> sup_sys" where
  "setHealth c reason s = (if HasHealth c then s\<lparr>health := health s @ [reason]\<rparr> else s)"

definition sup_kill :: "sup_sys \<Rightarrow> sup_sys" where
  "sup_kill s = s\<lparr>killed := True\<rparr>"

text \<open>\<open>runOnce\<close> returns a health reason and whether to restart.\<close>

definition returns :: "string \<Rightarrow> bool \<Rightarrow> sup_sys \<Rightarrow> sup_sys" where
  "returns reason restart s = s\<lparr>spc := SAfter reason restart\<rparr>"

definition handleExit :: "SupConfig \<Rightarrow> goerror \<Rightarrow> sup_sys \<Rightarrow> sup_sys" where
  "handleExit c exitErr s =
    (let code = ExitCode exitErr
     in if code = 10 then
          returns ''soloist_expired'' False
            ((case SupBinary c of None \<Rightarrow> s | Some b \<Rightarrow> s\<lparr>disk := DeleteBinary None b (disk s)\<rparr>)\<lparr>expired := True\<rparr>)
        else returns [] True s)"

definition take_exit :: "goerror \<Rightarrow> sup_sys \<Rightarrow> sup_sys" where
  "take_exit e s = s\<lparr>waitCh := None, exited_with := exited_with s @ [e]\<rparr>"

text \<open>\<open>waitWSAddr\<close> returned an error: kill, then decide.\<close>

definition ws_failed :: "SupConfig \<Rightarrow> goerr \<Rightarrow> sup_sys \<Rightarrow> sup_sys" where
  "ws_failed c e s =
    (let t = sup_kill s
     in if errors_Is e ErrCanceled then returns [] False t
        else if errors_Is e errWSPortTimeout then returns [] True t
        else handleExit c (Some e) t)"

text \<open>A write through the connector when there is one, directly to the connection otherwise.\<close>

definition sup_write :: "SupConfig \<Rightarrow> nat \<Rightarrow> goerror \<Rightarrow> message \<Rightarrow> sup_sys \<Rightarrow> goerror \<times> sup_sys" where
  "sup_write c k answer m s =
    (let (e, w) = (if HasCommands c then ConnWrite answer m (cmds s) else (answer, [(k, m)]))
     in (e, s\<lparr>wire := wire s @ w\<rparr>))"

definition drop_conn :: "SupConfig \<Rightarrow> nat \<Rightarrow> sup_sys \<Rightarrow> sup_sys" where
  "drop_conn c k s =
    (let t = (if HasCommands c then s\<lparr>cmds := detach (cmds s)\<rparr> else s)
     in t\<lparr>open_conns := open_conns t - {k}\<rparr>)"

section \<open>The actions\<close>

datatype sup_act =
    ActEnter | ActSpawn goerror
  | ActWaitCtx | ActWaitExit | ActWaitTimeout | ActWaitTick
  | ActLoopCtx | ActLoopExit | ActLoopDial
  | ActDialFail | ActDialOk | ActDialWake wake
  | ActActivate goerror | ActSetVolume goerror | ActMessage | ActConnLost
  | ActReturn | ActWake wake
  | EnvExit goerror | EnvCancel | EnvDisk fs | EnvCommand command goerror

definition sup_live :: "sup_sys \<Rightarrow> bool" where
  "sup_live s \<longleftrightarrow> (case spc s of STop \<Rightarrow> False | SAfter _ _ \<Rightarrow> False | SSleep \<Rightarrow> False | SReturned \<Rightarrow> False | _ \<Rightarrow> True)"

definition step_enter :: "sup_sys \<Rightarrow> sup_sys option" where
  "step_enter s = (if spc s = STop \<and> sup_cancelled s then Some (s\<lparr>spc := SReturned\<rparr>) else None)"

definition step_spawn :: "SupConfig \<Rightarrow> goerror \<Rightarrow> sup_sys \<Rightarrow> sup_sys option" where
  "step_spawn c err s =
    (if spc s \<noteq> STop \<or> sup_cancelled s then None
     else case err of
       Some e \<Rightarrow> Some (returns [] True s)
     | None \<Rightarrow> Some (s\<lparr>spc := SWait, proc_st := Running, killed := False, waitCh := None,
                      dialBackoff := defaultDialRetry, starts := Suc (starts s)\<rparr>))"

definition step_wait :: "SupConfig \<Rightarrow> sup_act \<Rightarrow> sup_sys \<Rightarrow> sup_sys option" where
  "step_wait c a s =
    (if spc s \<noteq> SWait then None
     else case a of
       ActWaitCtx \<Rightarrow> (if sup_cancelled s then Some (ws_failed c ErrCanceled s) else None)
     | ActWaitExit \<Rightarrow>
         (case waitCh s of
            None \<Rightarrow> None
          | Some None \<Rightarrow> Some ((take_exit None s)\<lparr>spc := SLoop []\<rparr>)
          | Some (Some e) \<Rightarrow> Some (ws_failed c e (take_exit (Some e) s)))
     | ActWaitTimeout \<Rightarrow> Some (ws_failed c errWSPortTimeout s)
     | ActWaitTick \<Rightarrow>
         (case ws_tick (disk s) (DataDir c) of None \<Rightarrow> Some s | Some url \<Rightarrow> Some (s\<lparr>spc := SLoop url\<rparr>))
     | _ \<Rightarrow> None)"

definition step_loop :: "SupConfig \<Rightarrow> sup_act \<Rightarrow> sup_sys \<Rightarrow> sup_sys option" where
  "step_loop c a s =
    (case spc s of
       SLoop url \<Rightarrow>
         (case a of
            ActLoopCtx \<Rightarrow> (if sup_cancelled s then Some (returns [] False (sup_kill s)) else None)
          | ActLoopExit \<Rightarrow>
              (case waitCh s of None \<Rightarrow> None | Some e \<Rightarrow> Some (handleExit c e (sup_kill (take_exit e s))))
          | ActLoopDial \<Rightarrow>
              (if sup_cancelled s \<or> waitCh s \<noteq> None then None else Some (s\<lparr>spc := SDial url\<rparr>))
          | _ \<Rightarrow> None)
     | _ \<Rightarrow> None)"

definition step_dial :: "SupConfig \<Rightarrow> sup_act \<Rightarrow> sup_sys \<Rightarrow> sup_sys option" where
  "step_dial c a s =
    (case spc s of
       SDial url \<Rightarrow>
         (case a of
            ActDialFail \<Rightarrow>
              (case waitCh s of
                 Some e \<Rightarrow> Some (handleExit c e (take_exit e s))
               | None \<Rightarrow> Some (s\<lparr>spc := SDialSleep url\<rparr>))
          | ActDialOk \<Rightarrow>
              (let k = next_conn s;
                   t = s\<lparr>spc := SActivate url k, dialBackoff := defaultDialRetry,
                         next_conn := Suc k, open_conns := insert k (open_conns s)\<rparr>
               in Some (if HasCommands c then t\<lparr>cmds := attach k (cmds t)\<rparr> else t))
          | _ \<Rightarrow> None)
     | SDialSleep url \<Rightarrow>
         (case a of
            ActDialWake w \<Rightarrow>
              (if w = CtxDone \<and> \<not> sup_cancelled s then None
               else if \<not> soloist_sleep w then Some (returns [] False (sup_kill s))
               else Some (s\<lparr>spc := SLoop url, dialBackoff := soloist_NextBackoff (dialBackoff s) defaultDialMaxRetry\<rparr>))
          | _ \<Rightarrow> None)
     | _ \<Rightarrow> None)"

definition step_session :: "SupConfig \<Rightarrow> sup_act \<Rightarrow> sup_sys \<Rightarrow> sup_sys option" where
  "step_session c a s =
    (case spc s of
       SActivate url k \<Rightarrow>
         (case a of
            ActActivate answer \<Rightarrow>
              (case sup_write c k answer activateCommand s of
                 (Some e, t) \<Rightarrow> Some ((drop_conn c k t)\<lparr>spc := SLoop url\<rparr>)
               | (None, t) \<Rightarrow> Some ((setHealth c [] t)\<lparr>spc := SVolume url k\<rparr>))
          | _ \<Rightarrow> None)
     | SVolume url k \<Rightarrow>
         (case a of
            ActSetVolume answer \<Rightarrow>
              (if SupVolume c \<le> 0 then Some (s\<lparr>spc := SConsume url k\<rparr>)
               else Some ((snd (sup_write c k answer (json_object (volumeCommand (SupVolume c))) s))\<lparr>spc := SConsume url k\<rparr>))
          | _ \<Rightarrow> None)
     | SConsume url k \<Rightarrow>
         (case a of
            ActMessage \<Rightarrow> Some s
          | ActConnLost \<Rightarrow>
              (let t = drop_conn c k s
               in if sup_cancelled s then Some (returns [] False (sup_kill t))
                  else (case waitCh s of
                          Some e \<Rightarrow> Some (handleExit c e (take_exit e t))
                        | None \<Rightarrow> Some (t\<lparr>spc := SLoop url\<rparr>)))
          | _ \<Rightarrow> None)
     | _ \<Rightarrow> None)"

definition step_after :: "SupConfig \<Rightarrow> sup_act \<Rightarrow> sup_sys \<Rightarrow> sup_sys option" where
  "step_after c a s =
    (case spc s of
       SAfter reason restart \<Rightarrow>
         (case a of
            ActReturn \<Rightarrow>
              (let t = (if reason \<noteq> [] then setHealth c reason s else s)
               in if \<not> restart \<or> sup_cancelled s then Some (t\<lparr>spc := SReturned\<rparr>)
                  else Some (t\<lparr>spc := SSleep, waits := waits s @ [backoff s]\<rparr>))
          | _ \<Rightarrow> None)
     | SSleep \<Rightarrow>
         (case a of
            ActWake w \<Rightarrow>
              (if w = CtxDone \<and> \<not> sup_cancelled s then None
               else if \<not> soloist_sleep w then Some (s\<lparr>spc := SReturned\<rparr>)
               else Some (s\<lparr>spc := STop, backoff := soloist_NextBackoff (backoff s) (sup_maxBackoff c)\<rparr>))
          | _ \<Rightarrow> None)
     | _ \<Rightarrow> None)"

definition step_env :: "SupConfig \<Rightarrow> sup_act \<Rightarrow> sup_sys \<Rightarrow> sup_sys option" where
  "step_env c a s =
    (case a of
       EnvExit e \<Rightarrow>
         (if proc_st s = Running \<and> (case e of None \<Rightarrow> True | Some x \<Rightarrow> errors_Is x ErrCanceled \<longrightarrow> sup_cancelled s)
          then Some (s\<lparr>proc_st := Exited, waitCh := Some e\<rparr>) else None)
     | EnvCancel \<Rightarrow> Some (s\<lparr>sup_cancelled := True\<rparr>)
     | EnvDisk f \<Rightarrow> Some (s\<lparr>disk := f\<rparr>)
     | EnvCommand cmd answer \<Rightarrow>
         (if HasCommands c then Some (s\<lparr>wire := wire s @ snd (send_command cmd answer (cmds s))\<rparr>) else None)
     | _ \<Rightarrow> None)"

definition sup_step :: "SupConfig \<Rightarrow> sup_act \<Rightarrow> sup_sys \<Rightarrow> sup_sys option" where
  "sup_step c a s =
    (case a of
       ActEnter \<Rightarrow> step_enter s
     | ActSpawn err \<Rightarrow> step_spawn c err s
     | ActWaitCtx \<Rightarrow> step_wait c a s | ActWaitExit \<Rightarrow> step_wait c a s
     | ActWaitTimeout \<Rightarrow> step_wait c a s | ActWaitTick \<Rightarrow> step_wait c a s
     | ActLoopCtx \<Rightarrow> step_loop c a s | ActLoopExit \<Rightarrow> step_loop c a s | ActLoopDial \<Rightarrow> step_loop c a s
     | ActDialFail \<Rightarrow> step_dial c a s | ActDialOk \<Rightarrow> step_dial c a s | ActDialWake w \<Rightarrow> step_dial c a s
     | ActActivate e \<Rightarrow> step_session c a s | ActSetVolume e \<Rightarrow> step_session c a s
     | ActMessage \<Rightarrow> step_session c a s | ActConnLost \<Rightarrow> step_session c a s
     | ActReturn \<Rightarrow> step_after c a s | ActWake w \<Rightarrow> step_after c a s
     | EnvExit e \<Rightarrow> step_env c a s | EnvCancel \<Rightarrow> step_env c a s
     | EnvDisk f \<Rightarrow> step_env c a s | EnvCommand cmd e \<Rightarrow> step_env c a s)"

fun sup_run :: "SupConfig \<Rightarrow> sup_act list \<Rightarrow> sup_sys \<Rightarrow> sup_sys option" where
  "sup_run c [] s = Some s"
| "sup_run c (a # as) s = (case sup_step c a s of None \<Rightarrow> None | Some t \<Rightarrow> sup_run c as t)"

inductive sup_reach :: "SupConfig \<Rightarrow> fs \<Rightarrow> sup_sys \<Rightarrow> bool" for c f where
  sup_start: "sup_reach c f (sup_init c f)"
| sup_next: "sup_reach c f s \<Longrightarrow> sup_step c a s = Some t \<Longrightarrow> sup_reach c f t"

lemma sup_run_reach: "sup_run c as s = Some t \<Longrightarrow> sup_reach c f s \<Longrightarrow> sup_reach c f t"
  by (induction as arbitrary: s) (auto split: option.splits intro: sup_reach.intros)

section \<open>The transitions, one by one\<close>

text \<open>
  Every transition of the goroutine as one of the few shapes below: most proofs go through
  these, with the state changes named.
\<close>

lemmas sup_step_defs = sup_step_def step_enter_def step_spawn_def step_wait_def step_loop_def
  step_dial_def step_session_def step_after_def step_env_def

lemmas sup_piece_defs = ws_failed_def handleExit_def returns_def sup_kill_def take_exit_def
  setHealth_def sup_write_def drop_conn_def Let_def

definition own_act :: "sup_act \<Rightarrow> bool" where
  "own_act a = (case a of EnvExit _ \<Rightarrow> False | EnvCancel \<Rightarrow> False | EnvDisk _ \<Rightarrow> False | EnvCommand _ _ \<Rightarrow> False | _ \<Rightarrow> True)"

lemma setHealth_simps [simp]:
  "spc (setHealth c r s) = spc s" "proc_st (setHealth c r s) = proc_st s" "killed (setHealth c r s) = killed s"
  "waitCh (setHealth c r s) = waitCh s" "cmds (setHealth c r s) = cmds s" "open_conns (setHealth c r s) = open_conns s"
  "sup_cancelled (setHealth c r s) = sup_cancelled s" "starts (setHealth c r s) = starts s"
  "waits (setHealth c r s) = waits s" "wire (setHealth c r s) = wire s" "expired (setHealth c r s) = expired s"
  "exited_with (setHealth c r s) = exited_with s" "backoff (setHealth c r s) = backoff s"
  "dialBackoff (setHealth c r s) = dialBackoff s" "next_conn (setHealth c r s) = next_conn s"
  "health (setHealth c r s) = (if HasHealth c then health s @ [r] else health s)"
  by (simp_all add: setHealth_def)

lemma handleExit_simps [simp]:
  "spc (handleExit c e s) = (if ExitCode e = 10 then SAfter ''soloist_expired'' False else SAfter [] True)"
  "proc_st (handleExit c e s) = proc_st s" "killed (handleExit c e s) = killed s"
  "waitCh (handleExit c e s) = waitCh s" "cmds (handleExit c e s) = cmds s"
  "open_conns (handleExit c e s) = open_conns s" "next_conn (handleExit c e s) = next_conn s"
  "sup_cancelled (handleExit c e s) = sup_cancelled s" "starts (handleExit c e s) = starts s"
  "waits (handleExit c e s) = waits s" "wire (handleExit c e s) = wire s"
  "expired (handleExit c e s) = (if ExitCode e = 10 then True else expired s)"
  "exited_with (handleExit c e s) = exited_with s" "backoff (handleExit c e s) = backoff s"
  "dialBackoff (handleExit c e s) = dialBackoff s" "health (handleExit c e s) = health s"
  by (simp_all add: handleExit_def returns_def Let_def split: option.splits)

lemma ws_failed_simps [simp]:
  "spc (ws_failed c e s) =
    (if errors_Is e ErrCanceled then SAfter [] False
     else if \<not> errors_Is e errWSPortTimeout \<and> ExitCode (Some e) = 10 then SAfter ''soloist_expired'' False
     else SAfter [] True)"
  "proc_st (ws_failed c e s) = proc_st s" "killed (ws_failed c e s) = True"
  "waitCh (ws_failed c e s) = waitCh s" "cmds (ws_failed c e s) = cmds s"
  "open_conns (ws_failed c e s) = open_conns s" "next_conn (ws_failed c e s) = next_conn s"
  "sup_cancelled (ws_failed c e s) = sup_cancelled s" "starts (ws_failed c e s) = starts s"
  "waits (ws_failed c e s) = waits s" "wire (ws_failed c e s) = wire s"
  "exited_with (ws_failed c e s) = exited_with s" "backoff (ws_failed c e s) = backoff s"
  "dialBackoff (ws_failed c e s) = dialBackoff s" "health (ws_failed c e s) = health s"
  by (simp_all add: ws_failed_def returns_def sup_kill_def Let_def)

lemma errors_Is_no_exit: "errors_Is e (ErrSentinel x) \<Longrightarrow> errors_As_exit e = None"
  by (induction e) auto

lemma timeout_simps [simp]:
  "errors_Is errWSPortTimeout errWSPortTimeout" "\<not> errors_Is errWSPortTimeout ErrCanceled"
  "ExitCode (Some errWSPortTimeout) = -1"
  by (simp_all add: errWSPortTimeout_def)

lemma no_exit_status:
  "errors_Is e errWSPortTimeout \<Longrightarrow> ExitCode (Some e) \<noteq> 10"
  "errors_Is e ErrCanceled \<Longrightarrow> ExitCode (Some e) \<noteq> 10"
  using errors_Is_no_exit [of e] errors_Is_exit_chain [of e]
  by (auto simp: errWSPortTimeout_def ExitCode_ten)

lemma ws_failed_expired [simp]:
  "expired (ws_failed c e s) = (if ExitCode (Some e) = 10 then True else expired s)"
  using errors_Is_no_exit [of e] errors_Is_exit_chain [of e]
  by (auto simp: ws_failed_def returns_def sup_kill_def errWSPortTimeout_def ExitCode_ten Let_def)

lemma drop_conn_simps [simp]:
  "spc (drop_conn c k s) = spc s" "proc_st (drop_conn c k s) = proc_st s" "killed (drop_conn c k s) = killed s"
  "waitCh (drop_conn c k s) = waitCh s" "open_conns (drop_conn c k s) = open_conns s - {k}"
  "sup_cancelled (drop_conn c k s) = sup_cancelled s" "starts (drop_conn c k s) = starts s"
  "waits (drop_conn c k s) = waits s" "wire (drop_conn c k s) = wire s" "expired (drop_conn c k s) = expired s"
  "exited_with (drop_conn c k s) = exited_with s" "backoff (drop_conn c k s) = backoff s"
  "dialBackoff (drop_conn c k s) = dialBackoff s" "next_conn (drop_conn c k s) = next_conn s"
  "health (drop_conn c k s) = health s"
  "cmds (drop_conn c k s) = (if HasCommands c then detach (cmds s) else cmds s)"
  by (simp_all add: drop_conn_def Let_def)

text \<open>A write adds messages to the wire, for the attached connection or the given one only.\<close>

definition writes_only :: "SupConfig \<Rightarrow> nat \<Rightarrow> sup_sys \<Rightarrow> sup_sys \<Rightarrow> bool" where
  "writes_only c k s t \<longleftrightarrow>
     (\<exists>w. t = s\<lparr>wire := wire s @ w\<rparr>
        \<and> fst ` set w \<subseteq> (if HasCommands c then set_option (conn (cmds s)) else {k}))"

lemma sup_write_state: "sup_write c k a m s = (e, t) \<Longrightarrow> writes_only c k s t"
  unfolding writes_only_def
  by (auto simp: sup_write_def ConnWrite_def Let_def split: if_splits option.splits)

lemma writes_only_refl: "writes_only c k s s"
  unfolding writes_only_def by (rule exI [of _ "[]"]) simp

lemma writes_only_simps [simp]:
  assumes "writes_only c k s t"
  shows "spc t = spc s" "proc_st t = proc_st s" "killed t = killed s" "waitCh t = waitCh s" "cmds t = cmds s"
    "open_conns t = open_conns s" "sup_cancelled t = sup_cancelled s" "starts t = starts s" "waits t = waits s"
    "expired t = expired s" "exited_with t = exited_with s" "backoff t = backoff s"
    "dialBackoff t = dialBackoff s" "next_conn t = next_conn s" "health t = health s"
  using assms by (auto simp: writes_only_def)

text \<open>The own transitions by program counter.\<close>

lemma sup_step_cases:
  assumes "sup_step c a s = Some t"
  obtains (enter) "spc s = STop" "sup_cancelled s" "t = s\<lparr>spc := SReturned\<rparr>"
    | (spawn_failed) "spc s = STop" "\<not> sup_cancelled s" "t = s\<lparr>spc := SAfter [] True\<rparr>"
    | (spawned) "spc s = STop" "\<not> sup_cancelled s" "a = ActSpawn None"
        "t = s\<lparr>spc := SWait, proc_st := Running, killed := False, waitCh := None,
               dialBackoff := defaultDialRetry, starts := Suc (starts s)\<rparr>"
    | (wait_ctx) "spc s = SWait" "sup_cancelled s" "t = ws_failed c ErrCanceled s"
    | (wait_clean) "spc s = SWait" "waitCh s = Some None" "t = (take_exit None s)\<lparr>spc := SLoop []\<rparr>"
    | (wait_exit) e where "spc s = SWait" "waitCh s = Some (Some e)" "t = ws_failed c e (take_exit (Some e) s)"
    | (wait_timeout) "spc s = SWait" "t = ws_failed c errWSPortTimeout s"
    | (wait_tick) "spc s = SWait" "t = s"
    | (wait_addr) url where "spc s = SWait" "t = s\<lparr>spc := SLoop url\<rparr>"
    | (loop_ctx) url where "spc s = SLoop url" "sup_cancelled s" "t = s\<lparr>killed := True, spc := SAfter [] False\<rparr>"
    | (loop_exit) url e where "spc s = SLoop url" "waitCh s = Some e" "t = handleExit c e (sup_kill (take_exit e s))"
    | (loop_dial) url where "spc s = SLoop url" "\<not> sup_cancelled s" "waitCh s = None" "t = s\<lparr>spc := SDial url\<rparr>"
    | (dial_exit) url e where "spc s = SDial url" "waitCh s = Some e" "t = handleExit c e (take_exit e s)"
    | (dial_failed) url where "spc s = SDial url" "waitCh s = None" "t = s\<lparr>spc := SDialSleep url\<rparr>"
    | (dial_ok) url where "spc s = SDial url" "a = ActDialOk"
        "t = (let u = s\<lparr>spc := SActivate url (next_conn s), dialBackoff := defaultDialRetry,
                        next_conn := Suc (next_conn s), open_conns := insert (next_conn s) (open_conns s)\<rparr>
              in if HasCommands c then u\<lparr>cmds := attach (next_conn s) (cmds s)\<rparr> else u)"
    | (dial_ctx) url where "spc s = SDialSleep url" "sup_cancelled s" "t = s\<lparr>killed := True, spc := SAfter [] False\<rparr>"
    | (dial_again) url where "spc s = SDialSleep url"
        "t = s\<lparr>spc := SLoop url, dialBackoff := soloist_NextBackoff (dialBackoff s) defaultDialMaxRetry\<rparr>"
    | (activate_failed) url k u where "spc s = SActivate url k"
        "writes_only c k s u"
        "t = (drop_conn c k u)\<lparr>spc := SLoop url\<rparr>"
    | (activated) url k u where "spc s = SActivate url k"
        "writes_only c k s u"
        "t = (setHealth c [] u)\<lparr>spc := SVolume url k\<rparr>"
    | (volume) url k u where "spc s = SVolume url k"
        "writes_only c k s u"
        "t = u\<lparr>spc := SConsume url k\<rparr>"
    | (message) url k where "spc s = SConsume url k" "t = s"
    | (lost_ctx) url k where "spc s = SConsume url k" "sup_cancelled s"
        "t = (drop_conn c k s)\<lparr>killed := True, spc := SAfter [] False\<rparr>"
    | (lost_exit) url k e where "spc s = SConsume url k" "waitCh s = Some e"
        "t = handleExit c e (take_exit e (drop_conn c k s))"
    | (lost) url k where "spc s = SConsume url k" "waitCh s = None" "t = (drop_conn c k s)\<lparr>spc := SLoop url\<rparr>"
    | (stop) reason restart where "spc s = SAfter reason restart" "\<not> restart \<or> sup_cancelled s"
        "t = (if reason \<noteq> [] then setHealth c reason s else s)\<lparr>spc := SReturned\<rparr>"
    | (pause) reason where "spc s = SAfter reason True" "\<not> sup_cancelled s"
        "t = (if reason \<noteq> [] then setHealth c reason s else s)\<lparr>spc := SSleep, waits := waits s @ [backoff s]\<rparr>"
    | (sleep_ctx) "spc s = SSleep" "sup_cancelled s" "t = s\<lparr>spc := SReturned\<rparr>"
    | (woken) "spc s = SSleep" "t = s\<lparr>spc := STop, backoff := soloist_NextBackoff (backoff s) (sup_maxBackoff c)\<rparr>"
    | (env_exit) e where "a = EnvExit e" "proc_st s = Running" "t = s\<lparr>proc_st := Exited, waitCh := Some e\<rparr>"
        "\<forall>x. e = Some x \<and> errors_Is x ErrCanceled \<longrightarrow> sup_cancelled s" "\<not> own_act a"
    | (env_cancel) "a = EnvCancel" "t = s\<lparr>sup_cancelled := True\<rparr>" "\<not> own_act a"
    | (env_disk) f where "t = s\<lparr>disk := f\<rparr>" "\<not> own_act a"
    | (env_command) w where "HasCommands c" "t = s\<lparr>wire := wire s @ w\<rparr>"
        "fst ` set w \<subseteq> set_option (conn (cmds s))" "\<not> own_act a"
proof (cases a)
  case ActEnter
  then show ?thesis using assms by (auto simp: sup_step_def step_enter_def split: if_splits intro: enter)
next
  case (ActSpawn err)
  then show ?thesis using assms
    by (auto simp: sup_step_def step_spawn_def returns_def split: if_splits option.splits intro: spawn_failed spawned)
next
  case ActWaitCtx
  then show ?thesis using assms by (auto simp: sup_step_def step_wait_def split: if_splits intro: wait_ctx)
next
  case ActWaitExit
  then show ?thesis using assms
    by (auto simp: sup_step_def step_wait_def split: if_splits option.splits intro: wait_clean wait_exit)
next
  case ActWaitTimeout
  then show ?thesis using assms by (auto simp: sup_step_def step_wait_def split: if_splits intro: wait_timeout)
next
  case ActWaitTick
  then show ?thesis using assms
    by (auto simp: sup_step_def step_wait_def split: if_splits option.splits intro: wait_tick wait_addr)
next
  case ActLoopCtx
  then show ?thesis using assms
    by (auto simp: sup_step_def step_loop_def returns_def sup_kill_def split: sup_pc.splits if_splits intro: loop_ctx)
next
  case ActLoopExit
  then show ?thesis using assms
    by (auto simp: sup_step_def step_loop_def split: sup_pc.splits option.splits intro: loop_exit)
next
  case ActLoopDial
  then show ?thesis using assms
    by (auto simp: sup_step_def step_loop_def split: sup_pc.splits if_splits intro: loop_dial)
next
  case ActDialFail
  then show ?thesis using assms
    by (auto simp: sup_step_def step_dial_def split: sup_pc.splits option.splits intro: dial_exit dial_failed)
next
  case ActDialOk
  then obtain url where "spc s = SDial url"
    using assms by (auto simp: sup_step_def step_dial_def split: sup_pc.splits)
  with ActDialOk show ?thesis using assms
    by (intro dial_ok) (auto simp: sup_step_def step_dial_def Let_def split: if_splits)
next
  case (ActDialWake w)
  then show ?thesis using assms
    by (auto simp: sup_step_def step_dial_def returns_def sup_kill_def soloist_sleep_def
        split: sup_pc.splits if_splits wake.splits intro: dial_ctx dial_again)
next
  case (ActActivate answer)
  then obtain url k where pc: "spc s = SActivate url k"
    using assms by (auto simp: sup_step_def step_session_def split: sup_pc.splits)
  obtain e u where u: "sup_write c k answer activateCommand s = (e, u)" by fastforce
  note w = sup_write_state [OF u]
  show ?thesis
  proof (cases e)
    case None
    then show ?thesis using assms ActActivate pc u
      by (intro activated [OF pc w]) (simp add: sup_step_def step_session_def)
  next
    case (Some x)
    then show ?thesis using assms ActActivate pc u
      by (intro activate_failed [OF pc w]) (simp add: sup_step_def step_session_def)
  qed
next
  case (ActSetVolume answer)
  then obtain url k where pc: "spc s = SVolume url k"
    using assms by (auto simp: sup_step_def step_session_def split: sup_pc.splits)
  obtain e u where u: "sup_write c k answer (json_object (volumeCommand (SupVolume c))) s = (e, u)" by fastforce
  note w = sup_write_state [OF u]
  show ?thesis
  proof (cases "SupVolume c \<le> 0")
    case True
    then show ?thesis using assms ActSetVolume pc by (intro volume [OF pc writes_only_refl]) (simp add: sup_step_def step_session_def)
  next
    case False
    then show ?thesis using assms ActSetVolume pc u
      by (intro volume [OF pc w]) (simp add: sup_step_def step_session_def)
  qed
next
  case ActMessage
  then show ?thesis using assms
    by (auto simp: sup_step_def step_session_def split: sup_pc.splits intro: message)
next
  case ActConnLost
  then show ?thesis using assms
    by (auto simp: sup_step_def step_session_def returns_def sup_kill_def Let_def
        split: sup_pc.splits if_splits option.splits intro: lost_ctx lost_exit lost)
next
  case ActReturn
  then obtain reason restart where pc: "spc s = SAfter reason restart"
    using assms by (auto simp: sup_step_def step_after_def split: sup_pc.splits)
  show ?thesis
  proof (cases "\<not> restart \<or> sup_cancelled s")
    case True
    then show ?thesis using assms ActReturn pc
      by (intro stop [OF pc True]) (simp add: sup_step_def step_after_def Let_def)
  next
    case False
    then have pc': "spc s = SAfter reason True" using pc by simp
    show ?thesis using assms ActReturn False pc
      by (intro pause [OF pc' conjunct2 [OF False [unfolded de_Morgan_disj not_not]]]) (simp add: sup_step_def step_after_def Let_def)
  qed
next
  case (ActWake w)
  then show ?thesis using assms
    by (auto simp: sup_step_def step_after_def soloist_sleep_def
        split: sup_pc.splits if_splits wake.splits intro: sleep_ctx woken)
next
  case (EnvExit e)
  then show ?thesis using assms
    by (intro env_exit [of e]) (auto simp: sup_step_def step_env_def own_act_def split: if_splits)
next
  case EnvCancel
  then show ?thesis using assms by (intro env_cancel) (auto simp: sup_step_def step_env_def own_act_def)
next
  case (EnvDisk f)
  then show ?thesis using assms by (intro env_disk [of f]) (auto simp: sup_step_def step_env_def own_act_def)
next
  case (EnvCommand cmd answer)
  have "fst ` set (snd (send_command cmd answer (cmds s))) \<subseteq> set_option (conn (cmds s))"
    by (auto simp: send_write ConnWrite_def split: option.splits)
  with EnvCommand show ?thesis using assms
    by (intro env_command) (auto simp: sup_step_def step_env_def own_act_def split: if_splits)
qed

section \<open>Invariants\<close>

text \<open>The connection of the current session, if any.\<close>

definition session :: "sup_sys \<Rightarrow> nat option" where
  "session s = (case spc s of SActivate _ k \<Rightarrow> Some k | SVolume _ k \<Rightarrow> Some k | SConsume _ k \<Rightarrow> Some k | _ \<Rightarrow> None)"

text \<open>The connector holds the session's connection and nothing else is open.\<close>

definition connected :: "SupConfig \<Rightarrow> sup_sys \<Rightarrow> bool" where
  "connected c s \<longleftrightarrow> conn (cmds s) = (if HasCommands c then session s else None)
     \<and> open_conns s = set_option (session s)"

text \<open>Outside \<open>runOnce\<close> no live subprocess is left behind; inside, exactly one was started and
  not killed; the wait channel holds a result only once the process has exited.\<close>

definition supervised :: "sup_sys \<Rightarrow> bool" where
  "supervised s \<longleftrightarrow>
     (if sup_live s then proc_st s \<noteq> NoProc \<and> \<not> killed s else proc_st s \<noteq> Running \<or> killed s)
     \<and> (waitCh s \<noteq> None \<longrightarrow> proc_st s = Exited)"

text \<open>Expiry is final, and the only other reason to stop is cancellation.\<close>

definition ten :: "goerror \<Rightarrow> bool" where
  "ten e \<longleftrightarrow> ExitCode e = 10"

definition expiry :: "SupConfig \<Rightarrow> sup_sys \<Rightarrow> bool" where
  "expiry c s \<longleftrightarrow>
     expired s = list_ex ten (exited_with s)
     \<and> (case spc s of
          SAfter r b \<Rightarrow> (if expired s then r = ''soloist_expired'' \<and> \<not> b else r = [] \<and> (b \<or> sup_cancelled s))
        | SReturned \<Rightarrow> (if expired s then HasHealth c \<longrightarrow> health s \<noteq> [] \<and> last (health s) = ''soloist_expired''
                      else sup_cancelled s)
        | _ \<Rightarrow> \<not> expired s)
     \<and> (\<forall>e. waitCh s = Some (Some e) \<and> errors_Is e ErrCanceled \<longrightarrow> sup_cancelled s)"

definition pacing :: "SupConfig \<Rightarrow> sup_sys \<Rightarrow> bool" where
  "pacing c s \<longleftrightarrow>
     waits s = map (schedule soloist_NextBackoff (sup_maxBackoff c) (sup_startBackoff c)) [0..<length (waits s)]
     \<and> (spc s \<noteq> SReturned \<longrightarrow>
          backoff s = schedule soloist_NextBackoff (sup_maxBackoff c) (sup_startBackoff c)
                       (if spc s = SSleep then length (waits s) - 1 else length (waits s)))
     \<and> (spc s = SSleep \<longrightarrow> 0 < length (waits s))
     \<and> starts s \<le> length (waits s) + (if spc s = STop \<or> spc s = SSleep then 0 else 1)
     \<and> 1000000000 \<le> sint (dialBackoff s) \<and> sint (dialBackoff s) \<le> 15000000000"

lemmas sup_inv_defs = connected_def session_def supervised_def sup_live_def expiry_def

lemma sup_init_invs:
  "connected c (sup_init c f)" "supervised (sup_init c f)" "expiry c (sup_init c f)" "pacing c (sup_init c f)"
  by (simp_all add: sup_inv_defs pacing_def sup_init_def new_connector_def defaultDialRetry_def)

lemma connected_step:
  assumes "sup_step c a s = Some t" and "connected c s"
  shows "connected c t"
  using assms(1)
  by (cases rule: sup_step_cases)
    (use assms(2) in \<open>auto simp: connected_def session_def take_exit_def sup_kill_def attach_def detach_def Let_def\<close>)

lemma supervised_step:
  assumes "sup_step c a s = Some t" and "supervised s"
  shows "supervised t"
  using assms(1)
  by (cases rule: sup_step_cases)
    (use assms(2) in \<open>auto simp: supervised_def sup_live_def take_exit_def sup_kill_def Let_def\<close>)

lemma expiry_step:
  assumes "sup_step c a s = Some t" and "expiry c s"
  shows "expiry c t"
  using assms(1)
proof (cases rule: sup_step_cases)
  case (env_exit e)
  then show ?thesis using assms(2) by (cases "spc s") (auto simp: expiry_def)
next
  case env_cancel
  then show ?thesis using assms(2) by (cases "spc s") (auto simp: expiry_def)
next
  case (env_disk f)
  then show ?thesis using assms(2) by (cases "spc s") (auto simp: expiry_def)
next
  case (env_command w)
  then show ?thesis using assms(2) by (cases "spc s") (auto simp: expiry_def)
qed (use assms(2) in \<open>auto simp: expiry_def take_exit_def sup_kill_def Let_def ten_def dest: no_exit_status\<close>)

lemma sup_backoff_range:
  "0 < sint (sup_startBackoff c)" "0 < sint (sup_maxBackoff c)"
  by (auto simp: sup_startBackoff_def sup_maxBackoff_def)

lemma dial_backoff_range:
  assumes "1000000000 \<le> sint d" "sint d \<le> 15000000000"
  shows "1000000000 \<le> sint (soloist_NextBackoff d defaultDialMaxRetry)
    \<and> sint (soloist_NextBackoff d defaultDialMaxRetry) \<le> 15000000000"
proof -
  have "sint defaultDialMaxRetry = 15000000000" by (simp add: defaultDialMaxRetry_def)
  then show ?thesis using soloist_bo.step_bounds [of d defaultDialMaxRetry] assms by simp
qed

lemma pacing_step:
  assumes "sup_step c a s = Some t" and "pacing c s"
  shows "pacing c t"
  using assms(1)
proof (cases rule: sup_step_cases)
  case woken
  have "0 < length (waits s)" "backoff s = schedule soloist_NextBackoff (sup_maxBackoff c) (sup_startBackoff c) (length (waits s) - 1)"
    using assms(2) woken by (auto simp: pacing_def)
  then have "backoff t = schedule soloist_NextBackoff (sup_maxBackoff c) (sup_startBackoff c) (length (waits s))"
    using woken schedule_Suc [of soloist_NextBackoff "sup_maxBackoff c" "sup_startBackoff c" "length (waits s) - 1"]
    by simp
  then show ?thesis using assms(2) woken by (simp add: pacing_def)
next
  case (dial_again url)
  then show ?thesis using assms(2) dial_backoff_range [of "dialBackoff s"] by (simp add: pacing_def)
qed (use assms(2) in \<open>auto simp: pacing_def take_exit_def sup_kill_def Let_def defaultDialRetry_def\<close>)

lemma sup_reach_invs:
  assumes "sup_reach c f s"
  shows "connected c s" and "supervised s" and "expiry c s" and "pacing c s"
  using assms
  by (induction rule: sup_reach.induct)
    (blast intro: sup_init_invs connected_step supervised_step expiry_step pacing_step)+

section \<open>The reader of a session\<close>

text \<open>\<open>wsConsume\<close> on the results of \<open>ReadMessage\<close>: the messages seen and the error that ends it; without
  one it still reads. Closing the connection on cancellation makes the next read fail.\<close>

fun wsConsume :: "(goerr + string) list \<Rightarrow> string list \<times> goerror" where
  "wsConsume [] = ([], None)"
| "wsConsume (Inl e # rs) = ([], Some e)"
| "wsConsume (Inr m # rs) = (case wsConsume rs of (ms, e) \<Rightarrow> (m # ms, e))"

fun ws_act :: "goerr + string \<Rightarrow> sup_act" where
  "ws_act (Inl e) = ActConnLost"
| "ws_act (Inr m) = ActMessage"

definition ws_acts :: "(goerr + string) list \<Rightarrow> sup_act list" where
  "ws_acts rs = map ws_act (takeWhile (\<lambda>r. \<not> isl r) rs @ take 1 (dropWhile (\<lambda>r. \<not> isl r) rs))"

text \<open>Messages change nothing; the first failed read ends the session as a lost connection.\<close>

lemma wsConsume_run:
  assumes "spc s = SConsume url k"
  shows "sup_run c (ws_acts rs) s =
    (case snd (wsConsume rs) of None \<Rightarrow> Some s | Some e \<Rightarrow> sup_step c ActConnLost s)"
  using assms
proof (induction rs rule: wsConsume.induct)
  case (2 e rs)
  then show ?case by (simp add: ws_acts_def split: option.split)
next
  case (3 m rs)
  have "sup_step c ActMessage s = Some s" using 3(2) by (simp add: sup_step_def step_session_def)
  then show ?case using 3 by (simp add: ws_acts_def split: prod.split)
qed (simp add: ws_acts_def)

section \<open>Properties\<close>


lemma expired_step:
  assumes "sup_step c a s = Some t" and "expiry c s" and "expired s"
  shows "starts t = starts s \<and> expired t"
  using assms(1)
  by (cases rule: sup_step_cases) (use assms(2,3) in \<open>auto simp: expiry_def split: if_splits\<close>)

lemma expired_run:
  "sup_run c as s = Some t \<Longrightarrow> expiry c s \<Longrightarrow> expired s \<Longrightarrow> starts t = starts s \<and> expired t"
proof (induction as arbitrary: s)
  case (Cons a as)
  then obtain u where "sup_step c a s = Some u" "sup_run c as u = Some t" by (auto split: option.splits)
  then show ?case using Cons expired_step [of c a s u] expiry_step [of c a s u] by auto
qed simp

text \<open>C24: expiry is recognised and final: the supervisor counts the binary as expired exactly
  when a Soloist process it waited for ended with exit code 10; from then on no process is
  started, whatever happens, and when it returns, the last health report is
  \<open>soloist_expired\<close>. In every other case it returns only because of cancellation.\<close>

theorem supervisor_expiry_final:
  assumes "sup_reach c f s"
  shows "(expired s \<longleftrightarrow> list_ex (\<lambda>e. ExitCode e = 10) (exited_with s))
    \<and> (expired s \<longrightarrow> (\<forall>as t. sup_run c as s = Some t \<longrightarrow> starts t = starts s \<and> expired t))
    \<and> (spc s = SReturned \<longrightarrow>
        (if expired s then HasHealth c \<longrightarrow> health s \<noteq> [] \<and> last (health s) = ''soloist_expired''
         else sup_cancelled s))"
proof -
  note e = sup_reach_invs(3) [OF assms]
  have "ten = (\<lambda>e. ExitCode e = 10)" by (simp add: fun_eq_iff ten_def)
  then show ?thesis using e expired_run [OF _ e] unfolding expiry_def by auto
qed

text \<open>C25: restarts are paced: the \<open>i\<close>-th wait of the restart loop is the start backoff doubled
  \<open>i\<close> times, capped at the maximum, there is at most one start more than completed waits, and
  the dial backoff stays between one and fifteen seconds.\<close>

theorem supervisor_pacing:
  assumes "sup_reach c f s" and "sint (sup_startBackoff c) \<le> sint (sup_maxBackoff c)"
  shows "(\<forall>i < length (waits s).
      sint (waits s ! i) = min (2 ^ i * sint (sup_startBackoff c)) (sint (sup_maxBackoff c)))
    \<and> starts s \<le> Suc (length (waits s))
    \<and> 1000000000 \<le> sint (dialBackoff s) \<and> sint (dialBackoff s) \<le> 15000000000"
proof -
  note p = sup_reach_invs(4) [OF assms(1)]
  have "sint (waits s ! i) = min (2 ^ i * sint (sup_startBackoff c)) (sint (sup_maxBackoff c))"
    if "i < length (waits s)" for i
  proof -
    have "waits s ! i = map (schedule soloist_NextBackoff (sup_maxBackoff c) (sup_startBackoff c)) [0..<length (waits s)] ! i"
      using p unfolding pacing_def by metis
    then have "waits s ! i = schedule soloist_NextBackoff (sup_maxBackoff c) (sup_startBackoff c) i"
      using that by simp
    then show ?thesis using soloist_bo.closed_form [OF sup_backoff_range(1) assms(2)] by simp
  qed
  then show ?thesis using p by (auto simp: pacing_def split: if_splits)
qed

lemma wire_step:
  assumes "sup_step c a s = Some t"
  shows "wire t = wire s \<or> (\<exists>k u. session s = Some k \<and> writes_only c k s u \<and> wire t = wire u)
    \<or> (\<exists>w. HasCommands c \<and> wire t = wire s @ w \<and> fst ` set w \<subseteq> set_option (conn (cmds s)))"
  using assms
proof (cases rule: sup_step_cases)
  case (activate_failed url k u)
  then have "session s = Some k" "writes_only c k s u" "wire t = wire u" by (simp_all add: session_def)
  then show ?thesis by blast
next
  case (activated url k u)
  then have "session s = Some k" "writes_only c k s u" "wire t = wire u" by (simp_all add: session_def)
  then show ?thesis by blast
next
  case (volume url k u)
  then have "session s = Some k" "writes_only c k s u" "wire t = wire u" by (simp_all add: session_def)
  then show ?thesis by blast
next
  case (env_command w)
  then have "HasCommands c" "wire t = wire s @ w" "fst ` set w \<subseteq> set_option (conn (cmds s))" by simp_all
  then show ?thesis by blast
qed (simp_all add: take_exit_def sup_kill_def Let_def)

text \<open>nothing is written to a connection that is not open: every message any goroutine puts
  on the wire, in any reachable state, goes to a connection dialled and not yet closed; and
  the connector offers a connection to other goroutines exactly while a session is up.\<close>

theorem supervisor_open_writes:
  assumes "sup_reach c f s" and "sup_step c a s = Some t"
  shows "\<exists>w. wire t = wire s @ w \<and> fst ` set w \<subseteq> open_conns s
    \<and> (conn (cmds s) \<noteq> None \<longrightarrow> set_option (conn (cmds s)) = open_conns s)"
proof -
  note k = sup_reach_invs(1) [OF assms(1)]
  have o: "conn (cmds s) \<noteq> None \<longrightarrow> set_option (conn (cmds s)) = open_conns s"
    using k by (auto simp: connected_def split: if_splits)
  have "\<exists>w. wire t = wire s @ w \<and> fst ` set w \<subseteq> open_conns s"
    using wire_step [OF assms(2)]
  proof (elim disjE exE conjE)
    assume "wire t = wire s"
    then show ?thesis by (intro exI [of _ "[]"]) simp
  next
    fix n u assume "session s = Some n" "writes_only c n s u" "wire t = wire u"
    then show ?thesis using k unfolding writes_only_def connected_def by (auto split: if_splits)
  next
    fix w assume "HasCommands c" "wire t = wire s @ w" "fst ` set w \<subseteq> set_option (conn (cmds s))"
    then show ?thesis using k unfolding connected_def by (intro exI [of _ w]) simp
  qed
  then show ?thesis using o by blast
qed

text \<open>The supervisor's own steps after a cancellation: a bound on how many are left.\<close>

definition sup_rank :: "sup_sys \<Rightarrow> nat" where
  "sup_rank s = (case spc s of
     SReturned \<Rightarrow> 0 | SAfter _ _ \<Rightarrow> 1 | STop \<Rightarrow> 1 | SSleep \<Rightarrow> 2 | SConsume _ _ \<Rightarrow> 3 | SLoop _ \<Rightarrow> 2
   | SDialSleep _ \<Rightarrow> 3 | SWait \<Rightarrow> 3 | SVolume _ _ \<Rightarrow> 4 | SActivate _ _ \<Rightarrow> 5 | SDial _ \<Rightarrow> 6)"

lemma rank_step:
  assumes "sup_step c a s = Some t" and "sup_cancelled s" and "own_act a"
  shows "sup_cancelled t \<and> (sup_rank t < sup_rank s \<or> t = s)"
  using assms(1)
  by (cases rule: sup_step_cases)
    (use assms(2,3) in \<open>auto simp: sup_rank_def take_exit_def sup_kill_def Let_def split: if_splits\<close>)

lemma rank_progress:
  assumes "sup_cancelled s" and "spc s \<noteq> SReturned"
  shows "\<exists>a t. own_act a \<and> sup_step c a s = Some t \<and> sup_rank t < sup_rank s"
proof -
  have en: "\<exists>a t. own_act a \<and> sup_step c a s = Some t \<and> t \<noteq> s"
  proof (cases "spc s")
    case STop
    then show ?thesis using assms
      by (intro exI [of _ ActEnter]) (auto simp: sup_step_def step_enter_def own_act_def dest: arg_cong [of _ _ spc])
  next
    case SWait
    have "spc (ws_failed c ErrCanceled s) \<noteq> spc s" using SWait by simp
    then show ?thesis using assms SWait
      by (intro exI [of _ ActWaitCtx]) (auto simp: sup_step_def step_wait_def own_act_def dest: arg_cong [of _ _ spc])
  next
    case (SLoop url)
    then show ?thesis using assms
      by (intro exI [of _ ActLoopCtx])
        (auto simp: sup_step_def step_loop_def own_act_def returns_def sup_kill_def dest: arg_cong [of _ _ spc])
  next
    case (SDial url)
    then show ?thesis
      by (intro exI [of _ ActDialOk]) (auto simp: sup_step_def step_dial_def own_act_def Let_def dest: arg_cong [of _ _ spc])
  next
    case (SDialSleep url)
    then show ?thesis using assms
      by (intro exI [of _ "ActDialWake CtxDone"])
        (auto simp: sup_step_def step_dial_def own_act_def returns_def sup_kill_def soloist_sleep_def dest: arg_cong [of _ _ spc])
  next
    case (SActivate url k)
    then show ?thesis
      by (intro exI [of _ "ActActivate None"])
        (auto simp: sup_step_def step_session_def own_act_def sup_write_def split: option.splits prod.splits
          dest: arg_cong [of _ _ spc])
  next
    case (SVolume url k)
    then show ?thesis
      by (intro exI [of _ "ActSetVolume None"])
        (auto simp: sup_step_def step_session_def own_act_def dest: arg_cong [of _ _ spc])
  next
    case (SConsume url k)
    then show ?thesis using assms
      by (intro exI [of _ ActConnLost])
        (auto simp: sup_step_def step_session_def own_act_def returns_def Let_def dest: arg_cong [of _ _ spc])
  next
    case (SAfter r b)
    then show ?thesis using assms
      by (intro exI [of _ ActReturn])
        (auto simp: sup_step_def step_after_def own_act_def Let_def dest: arg_cong [of _ _ spc])
  next
    case SSleep
    then show ?thesis using assms
      by (intro exI [of _ "ActWake CtxDone"])
        (auto simp: sup_step_def step_after_def own_act_def soloist_sleep_def dest: arg_cong [of _ _ spc])
  next
    case SReturned
    then show ?thesis using assms by simp
  qed
  then obtain a t where a: "own_act a" "sup_step c a s = Some t" "t \<noteq> s" by blast
  then show ?thesis using rank_step [OF a(2) assms(1) a(1)] by blast
qed

lemma rank_run:
  "sup_cancelled s \<Longrightarrow> \<exists>as t. length as \<le> sup_rank s \<and> list_all own_act as \<and> sup_run c as s = Some t \<and> spc t = SReturned"
proof (induction "sup_rank s" arbitrary: s rule: less_induct)
  case less
  show ?case
  proof (cases "spc s = SReturned")
    case True
    then show ?thesis by (intro exI [of _ "[]"]) simp
  next
    case False
    then obtain a t where a: "own_act a" "sup_step c a s = Some t" "sup_rank t < sup_rank s"
      using rank_progress [OF less.prems False] by blast
    have "sup_cancelled t" using rank_step [OF a(2) less.prems a(1)] by simp
    then obtain as u where "length as \<le> sup_rank t" "list_all own_act as" "sup_run c as t = Some u" "spc u = SReturned"
      using less.hyps [OF a(3)] by blast
    then show ?thesis using a by (intro exI [of _ "a # as"] exI [of _ u]) simp
  qed
qed

text \<open>The distinct states a run passes through, its start included.\<close>

fun visited :: "SupConfig \<Rightarrow> sup_act list \<Rightarrow> sup_sys \<Rightarrow> sup_sys list" where
  "visited c [] s = [s]"
| "visited c (a # as) s = (case sup_step c a s of None \<Rightarrow> [s] | Some t \<Rightarrow> s # visited c as t)"

lemma visited_hd: "\<exists>xs. visited c as s = s # xs"
  by (cases as) (simp_all split: option.split)

lemma rank_visited:
  "sup_cancelled s \<Longrightarrow> list_all own_act as \<Longrightarrow> length (remdups_adj (visited c as s)) \<le> Suc (sup_rank s)"
proof (induction as arbitrary: s)
  case (Cons a as)
  show ?case
  proof (cases "sup_step c a s")
    case (Some t)
    have r: "sup_cancelled t" "sup_rank t < sup_rank s \<or> t = s"
      using rank_step [OF Some Cons.prems(1)] Cons.prems(2) by auto
    obtain xs where v: "visited c as t = t # xs" using visited_hd [of c as t] by blast
    have "length (remdups_adj (s # t # xs)) \<le> (if s = t then 0 else 1) + length (remdups_adj (t # xs))"
      by simp
    then show ?thesis using Cons.IH [OF r(1)] Cons.prems(2) r(2) Some v by auto
  qed simp
qed simp


text \<open>Dialling one address for ever: the result of the process is not waiting (it was consumed, or it
  is still running), and the address is not read again.\<close>

definition stuck :: "string \<Rightarrow> pstate \<Rightarrow> nat \<Rightarrow> string list \<Rightarrow> sup_sys \<Rightarrow> bool" where
  "stuck url p n hs s \<longleftrightarrow> spc s \<in> {SLoop url, SDial url, SDialSleep url} \<and> waitCh s = None \<and> proc_st s = p
     \<and> \<not> sup_cancelled s \<and> starts s = n \<and> health s = hs"

lemma stuck_step:
  assumes "sup_step c a s = Some t" and "stuck url p n hs s" and "a \<noteq> EnvCancel" and "a \<noteq> ActDialOk"
    and "p = Running \<Longrightarrow> \<forall>e. a \<noteq> EnvExit e"
  shows "stuck url p n hs t"
  using assms(1)
  by (cases rule: sup_step_cases) (use assms(2-) in \<open>auto simp: stuck_def\<close>)

lemma stuck_run:
  "sup_run c as s = Some t \<Longrightarrow> stuck url p n hs s \<Longrightarrow> EnvCancel \<notin> set as \<Longrightarrow> ActDialOk \<notin> set as \<Longrightarrow>
    (p = Running \<Longrightarrow> \<forall>e. EnvExit e \<notin> set as) \<Longrightarrow> stuck url p n hs t"
proof (induction as arbitrary: s)
  case (Cons a as)
  then obtain u where u: "sup_step c a s = Some u" "sup_run c as u = Some t" by (auto split: option.splits)
  have "stuck url p n hs u" using stuck_step [OF u(1) Cons.prems(2)] Cons.prems(3-5) by auto
  then show ?case using Cons.IH [OF u(2)] Cons.prems(3-5) by auto
qed simp

text \<open>C27: a clean exit of Soloist before it publishes its port is not recovered: the empty
  address is then dialled for ever. In every continuation without cancellation in which that
  dial does not succeed, no process is running and none is ever started again.\<close>

theorem supervisor_clean_exit_stuck:
  assumes "sup_reach c f s" and "spc s = SWait" and "waitCh s = Some None" and "\<not> sup_cancelled s"
    and "sup_run c (ActWaitExit # as) s = Some t" and "EnvCancel \<notin> set as" and "ActDialOk \<notin> set as"
  shows "spc t \<in> {SLoop [], SDial [], SDialSleep []} \<and> proc_st t = Exited \<and> starts t = starts s"
proof -
  let ?u = "(take_exit None s)\<lparr>spc := SLoop []\<rparr>"
  have "sup_step c ActWaitExit s = Some ?u" using assms(2,3) by (simp add: sup_step_def step_wait_def)
  then have run: "sup_run c as ?u = Some t" using assms(5) by simp
  have "proc_st s = Exited" using sup_reach_invs(2) [OF assms(1)] assms(3) by (simp add: supervised_def)
  then have "stuck [] Exited (starts s) (health s) ?u" using assms(4) by (simp add: stuck_def take_exit_def)
  from stuck_run [OF run this assms(6,7)] show ?thesis by (simp add: stuck_def)
qed

text \<open>C28: the port file of an earlier process is believed: when it is still there at the first tick
  after a new process was started, its address is dialled, and as long as that dial fails and the
  process lives the new port is never read, whatever the process publishes later; nothing is
  reported and nothing restarted.\<close>

theorem supervisor_stale_port:
  assumes "spc s = STop" and "\<not> sup_cancelled s" and "ws_tick (disk s) (DataDir c) = Some url"
    and "sup_run c (ActSpawn None # ActWaitTick # as) s = Some t"
    and "EnvCancel \<notin> set as" and "ActDialOk \<notin> set as" and "\<forall>e. EnvExit e \<notin> set as"
  shows "spc t \<in> {SLoop url, SDial url, SDialSleep url} \<and> proc_st t = Running
    \<and> starts t = Suc (starts s) \<and> health t = health s"
proof -
  obtain u where u: "sup_run c [ActSpawn None, ActWaitTick] s = Some u" "sup_run c as u = Some t"
    using assms(4) by (auto split: option.splits)
  then have "stuck url Running (Suc (starts s)) (health s) u"
    using assms(1-3) by (auto simp: sup_step_def step_spawn_def step_wait_def stuck_def)
  from stuck_run [OF u(2) this assms(5,6,7)] show ?thesis by (simp add: stuck_def)
qed

section \<open>Concrete runs\<close>

definition demo_sup :: SupConfig where
  "demo_sup = \<lparr>BinaryPath = ''/data/bin/soloist'', DeviceName = ''box'', APIKey = ''key'', DataDir = ''/data'',
     CacheDir = ''/cache'', StartBackoff = 0, MaxBackoff = 0, WSPortTimeout = 0, HasCommands = True,
     HasHealth = True, SupBinary = Some demo_manager, SupVolume = 80\<rparr>"

definition demo_fs :: fs where
  "demo_fs = (\<lambda>_. None)(''/data/ws.port'' := Some \<lparr>is_dir = False, content = ''4070'', mtime = 0\<rparr>)"

text \<open>One session that breaks when the process fails, a restart, a session during which the
  binary expires.\<close>

definition demo_session :: "sup_act list" where
  "demo_session = [ActSpawn None, ActWaitTick, ActLoopDial, ActDialFail, ActDialWake TimerFired, ActLoopDial,
     ActDialOk, ActActivate None, ActSetVolume None, EnvCommand (CmdPlay ''spotify:track:1'') None]"

definition demo_restart :: "sup_act list" where
  "demo_restart = demo_session @ [EnvExit (Some (ErrExit 1)), ActConnLost, ActReturn]"

definition demo_expiry :: "sup_act list" where
  "demo_expiry = demo_restart @ [ActWake TimerFired, ActSpawn None, EnvExit (Some (ErrExit 10)), ActWaitExit, ActReturn]"

definition sup_at :: "sup_act list \<Rightarrow> sup_sys" where
  "sup_at as = the (sup_run demo_sup as (sup_init demo_sup demo_fs))"

lemma sup_at_reach:
  assumes "sup_run demo_sup as (sup_init demo_sup demo_fs) \<noteq> None"
  shows "sup_reach demo_sup demo_fs (sup_at as)"
proof -
  from assms obtain t where "sup_run demo_sup as (sup_init demo_sup demo_fs) = Some t" by blast
  then show ?thesis using sup_run_reach [OF _ sup_start] by (simp add: sup_at_def)
qed

lemma demo_tick: "ws_tick demo_fs ''/data'' = Some ''ws://127.0.0.1:4070''"
proof -
  have p: "path_Join [''/data'', ''ws.port''] = ''/data/ws.port''" "path_Join [''/data'', ''ws.addr''] = ''/data/ws.addr''"
    by code_simp+
  have "TrimSpace ''4070'' = ''4070''"
    by (rule TrimSpace_solid) (simp_all add: solid_def space_runes_def)
  then show ?thesis
    by (simp add: ws_tick_def readWSPort_def p demo_fs_def os_ReadFile_def JoinHostPort_def del: path_Join.simps)
qed

lemma demo_reaches:
  "sup_reach demo_sup demo_fs (sup_at demo_session)" "sup_reach demo_sup demo_fs (sup_at demo_restart)"
  "sup_reach demo_sup demo_fs (sup_at demo_expiry)"
  by (rule sup_at_reach, code_simp)+


theorem supervisor_expiry_final_witness:
  "expired (sup_at demo_expiry) \<and> last (health (sup_at demo_expiry)) = ''soloist_expired''
   \<and> starts (sup_at demo_expiry) = 2"
proof -
  have v: "spc (sup_at demo_expiry) = SReturned" "exited_with (sup_at demo_expiry) = [Some (ErrExit 1), Some (ErrExit 10)]"
      "HasHealth demo_sup" "starts (sup_at demo_expiry) = 2"
    by code_simp+
  then have "expired (sup_at demo_expiry)" using supervisor_expiry_final [OF demo_reaches(3)] by simp
  then show ?thesis using supervisor_expiry_final [OF demo_reaches(3)] v by simp
qed

theorem supervisor_pacing_witness:
  "sint (waits (sup_at demo_expiry) ! 0) = 5000000000 \<and> length (waits (sup_at demo_expiry)) = 1"
proof -
  have v: "length (waits (sup_at demo_expiry)) = 1" by code_simp
  have b: "sint (sup_startBackoff demo_sup) = 5000000000" "sint (sup_maxBackoff demo_sup) = 60000000000"
    by (simp_all add: sup_startBackoff_def sup_maxBackoff_def demo_sup_def)
  have p: "\<forall>i < length (waits (sup_at demo_expiry)).
      sint (waits (sup_at demo_expiry) ! i) = min (2 ^ i * 5000000000) 60000000000"
    using supervisor_pacing [OF demo_reaches(3)] b by simp
  show ?thesis using p [rule_format, of 0] v by simp
qed

theorem supervisor_open_writes_witness:
  "\<exists>w t. sup_step demo_sup (EnvCommand CmdPause None) (sup_at demo_session) = Some t
    \<and> wire t = wire (sup_at demo_session) @ w \<and> fst ` set w \<subseteq> {0}"
proof -
  have o: "open_conns (sup_at demo_session) = {0}" by code_simp
  obtain t where t: "sup_step demo_sup (EnvCommand CmdPause None) (sup_at demo_session) = Some t"
    by (auto simp: sup_step_def step_env_def demo_sup_def)
  show ?thesis using supervisor_open_writes [OF demo_reaches(1) t] t unfolding o by blast
qed


theorem supervisor_clean_exit_stuck_witness:
  "\<exists>t. sup_run demo_sup [ActWaitExit, ActLoopDial, ActDialFail, ActDialWake TimerFired, ActLoopDial]
       (sup_at [ActSpawn None, EnvExit None]) = Some t
     \<and> proc_st t = Exited \<and> starts t = 1"
proof -
  let ?s = "sup_at [ActSpawn None, EnvExit None]"
  let ?as = "[ActLoopDial, ActDialFail, ActDialWake TimerFired, ActLoopDial]"
  have r: "sup_reach demo_sup demo_fs ?s" by (rule sup_at_reach, code_simp)
  have v: "spc ?s = SWait" "waitCh ?s = Some None" "\<not> sup_cancelled ?s" "starts ?s = 1" by code_simp+
  have "sup_run demo_sup (ActWaitExit # ?as) ?s \<noteq> None" by code_simp
  then obtain t where t: "sup_run demo_sup (ActWaitExit # ?as) ?s = Some t" by blast
  have "proc_st t = Exited \<and> starts t = starts ?s"
    using supervisor_clean_exit_stuck [OF r v(1-3) t] by simp
  then show ?thesis using t v(4) by auto
qed

theorem supervisor_stale_port_witness:
  "\<exists>t. sup_run demo_sup [ActSpawn None, ActWaitTick, EnvDisk (\<lambda>_. None), ActLoopDial, ActDialFail, ActDialWake TimerFired]
        ((sup_at demo_restart)\<lparr>spc := STop\<rparr>) = Some t
     \<and> spc t = SLoop ''ws://127.0.0.1:4070'' \<and> proc_st t = Running \<and> health t = [[]]"
proof -
  let ?s = "(sup_at demo_restart)\<lparr>spc := STop\<rparr>" and ?as = "[EnvDisk (\<lambda>_. None), ActLoopDial, ActDialFail, ActDialWake TimerFired]"
  have v: "spc ?s = STop" "\<not> sup_cancelled ?s" "health ?s = [[]]" by code_simp+
  have d: "ws_tick (disk ?s) (DataDir demo_sup) = Some ''ws://127.0.0.1:4070''"
    by code_simp
  have "case sup_run demo_sup (ActSpawn None # ActWaitTick # ?as) ?s of None \<Rightarrow> False
    | Some t \<Rightarrow> spc t = SLoop ''ws://127.0.0.1:4070''" by code_simp
  then obtain t where t: "sup_run demo_sup (ActSpawn None # ActWaitTick # ?as) ?s = Some t" "spc t = SLoop ''ws://127.0.0.1:4070''"
    by (auto split: option.splits)
  show ?thesis using supervisor_stale_port [OF v(1,2) d t(1)] t v(3) by simp
qed

end
