(* ===== verification/Control.thy ===== *)
theory Control imports MockHub Supervisor begin

text \<open>
  The control path of the shim, end to end: the mock's hub (\<open>cmd/mock-teddycloud/main.go\<close>), the
  listener (\<open>internal/sselistener/listener.go\<close>), the connector (\<open>internal/soloist/connector.go\<close>) and
  the supervisor that owns the connection (\<open>internal/soloist/supervisor.go\<close>). What arrives is read
  by an independent reader of Soloist's side of the WebSocket.
\<close>

section \<open>Soloist's side\<close>

text \<open>A message as its receiver takes it: the command, and the URI when there is one.\<close>

definition soloist_reads :: "message \<Rightarrow> (string \<times> string option) option" where
  "soloist_reads m =
    (case json_members m of
       None \<Rightarrow> None
     | Some ms \<Rightarrow>
        (case Option.bind (map_of ms (json_string ''command'')) unmarshal_string of
           None \<Rightarrow> None
         | Some cmd \<Rightarrow> Some (cmd, Option.bind (map_of ms (json_string ''uri'')) unmarshal_string)))"

text \<open>What an input at the control page makes Soloist read. Placing a figurine reads as \<open>play\<close> with an empty
  URI, where \<open>docs/DESIGN.md\<close> has a \<open>play\<close> without one, the form that resumes.\<close>

fun soloist_effect :: "hub_input \<Rightarrow> (string \<times> string option) list" where
  "soloist_effect (InAction a) =
    (if a = ''figurine-placed'' then [(''play'', Some [])]
     else if a = ''figurine-lifted'' then [(''pause'', None)]
     else if a = ''knock-forward'' then [(''skip_next'', None)]
     else if a = ''knock-backward'' then [(''skip_prev'', None)] else [])"
| "soloist_effect InTick = []"

fun command_meaning :: "command \<Rightarrow> string \<times> string option" where
  "command_meaning (CmdPlay u) = (''play'', Some (coerce_utf8 u))"
| "command_meaning CmdPause = (''pause'', None)"
| "command_meaning CmdSkipNext = (''skip_next'', None)"
| "command_meaning CmdSkipPrev = (''skip_prev'', None)"

lemma member_names:
  "json_string ''command'' \<noteq> json_string ''type''" "json_string ''uri'' \<noteq> json_string ''type''"
  "json_string ''uri'' \<noteq> json_string ''command''"
  by code_simp+

lemma coerce_names:
  "coerce_utf8 ''play'' = ''play''" "coerce_utf8 ''pause'' = ''pause''" "coerce_utf8 ''skip_next'' = ''skip_next''"
  "coerce_utf8 ''skip_prev'' = ''skip_prev''" "coerce_utf8 [] = []"
  by code_simp+

lemma reads_encoded: "soloist_reads (encode_command c) = Some (command_meaning c)"
  by (cases c) (simp_all add: soloist_reads_def play_members simple_members member_names member_names [symmetric]
      unmarshal_json_string coerce_names)

lemma effect_commands: "map command_meaning (input_commands x) = soloist_effect x"
  by (cases x) (simp_all add: coerce_names)

text \<open>No command of the connector reads as a \<open>play\<close> that resumes.\<close>

lemma play_never_resumes: "soloist_reads (encode_command c) \<noteq> Some (''play'', None)"
  unfolding reads_encoded by (cases c) simp_all

section \<open>Commands sent while a session is up\<close>

text \<open>The calls of the listener, as steps of the supervisor's environment, each with the answer of its
  write; a failed write only concerns its own command.\<close>

definition command_acts :: "command list \<Rightarrow> goerror list \<Rightarrow> sup_act list" where
  "command_acts cs answers = map (\<lambda>(c, a). EnvCommand c a) (zip cs answers)"

lemma command_step:
  assumes "HasCommands c"
  shows "sup_step c (EnvCommand cmd a) s =
    Some (s\<lparr>wire := wire s @ (case conn (cmds s) of None \<Rightarrow> [] | Some k \<Rightarrow> [(k, encode_command cmd)])\<rparr>)"
  using assms by (simp add: sup_step_def step_env_def send_write ConnWrite_def split: option.split)

lemma command_run:
  assumes "HasCommands c"
  shows "length answers = length cs \<Longrightarrow> sup_run c (command_acts cs answers) s =
    Some (s\<lparr>wire := wire s @ (case conn (cmds s) of None \<Rightarrow> [] | Some k \<Rightarrow> map (\<lambda>cmd. (k, encode_command cmd)) cs)\<rparr>)"
proof (induction answers cs arbitrary: s rule: list_induct2)
  case Nil
  then show ?case by (cases s) (simp add: command_acts_def split: option.split)
next
  case (Cons a answers cmd cs)
  let ?u = "s\<lparr>wire := wire s @ (case conn (cmds s) of None \<Rightarrow> [] | Some k \<Rightarrow> [(k, encode_command cmd)])\<rparr>"
  have "sup_run c (command_acts (cmd # cs) (a # answers)) s = sup_run c (command_acts cs answers) ?u"
    using command_step [OF assms] by (simp add: command_acts_def)
  then show ?case using Cons.IH [of ?u] by (simp split: option.splits)
qed

section \<open>Properties\<close>



end
