(* ===== verification/Bufio.thy ===== *)
theory Bufio imports Prelude begin

text \<open>
  \<open>bufio.Writer\<close> over a connection, as \<open>streamChunks\<close> of \<open>internal/server/stream.go\<close> uses it. The
  connection keeps the writes it accepted, one by one; it fails for good once its budget of bytes
  is used up (a consumer that went away), and a failing write may accept a part. The writer's
  error is sticky. The lemmas say that the writer neither loses, repeats nor reorders bytes, that
  it batches, and that what it claims to have accepted is exactly what it wrote or holds.
\<close>

section \<open>The connection\<close>

text \<open>\<open>room\<close> is \<open>None\<close> when every write succeeds, otherwise the bytes still accepted.\<close>

record sink =
  writes :: "u8 list list"
  room :: "nat option"

definition sink_bytes :: "sink \<Rightarrow> u8 list" where
  "sink_bytes w = concat (writes w)"

text \<open>\<open>io.Writer.Write\<close>: the bytes accepted, whether it failed.\<close>

definition sink_write :: "u8 list \<Rightarrow> sink \<Rightarrow> nat \<times> bool \<times> sink" where
  "sink_write p w =
    (case room w of
       None \<Rightarrow> (length p, False, w\<lparr>writes := writes w @ [p]\<rparr>)
     | Some k \<Rightarrow>
        (if length p \<le> k then (length p, False, w\<lparr>writes := writes w @ [p], room := Some (k - length p)\<rparr>)
         else (k, True, w\<lparr>writes := writes w @ [take k p], room := Some 0\<rparr>)))"

section \<open>The writer\<close>

record bufw =
  bsize :: nat
  held :: "u8 list"
  failed :: bool
  sink_of :: sink

definition NewWriterSize :: "sink \<Rightarrow> nat \<Rightarrow> bufw" where
  "NewWriterSize w n = \<lparr>bsize = (if n = 0 then 4096 else n), held = [], failed = False, sink_of = w\<rparr>"

text \<open>\<open>Flush\<close>: on a short write the rest stays in the buffer.\<close>

definition bw_flush :: "bufw \<Rightarrow> bufw" where
  "bw_flush b =
    (if failed b \<or> held b = [] then b
     else (case sink_write (held b) (sink_of b) of
       (n, e, w) \<Rightarrow> b\<lparr>held := drop n (held b), failed := e, sink_of := w\<rparr>))"

definition avail :: "bufw \<Rightarrow> nat" where
  "avail b = bsize b - length (held b)"

text \<open>
  One turn of the loop of \<open>Write\<close>: with an empty buffer the argument is written directly,
  otherwise the buffer is filled and flushed.
\<close>

definition bw_turn :: "u8 list \<Rightarrow> bufw \<Rightarrow> nat \<times> bufw" where
  "bw_turn p b =
    (if held b = [] then
       (case sink_write p (sink_of b) of (n, e, w) \<Rightarrow> (n, b\<lparr>failed := e, sink_of := w\<rparr>))
     else (min (avail b) (length p), bw_flush (b\<lparr>held := held b @ take (avail b) p\<rparr>)))"

definition bw_ok :: "bufw \<Rightarrow> bool" where
  "bw_ok b \<longleftrightarrow> 0 < bsize b \<and> length (held b) \<le> bsize b"

lemma sink_write_bounds: "sink_write p w = (n, e, w') \<Longrightarrow> n \<le> length p \<and> (\<not> e \<longrightarrow> n = length p)
    \<and> writes w' = writes w @ [take n p]"
  by (auto simp: sink_write_def split: option.splits if_splits)

lemma bw_flush_ok [simp]: "bw_ok b \<Longrightarrow> bw_ok (bw_flush b)"
  by (auto simp: bw_ok_def bw_flush_def split: prod.splits)

lemma bw_flush_size [simp]: "bsize (bw_flush b) = bsize b"
  by (auto simp: bw_flush_def split: prod.splits)

lemma bw_flush_held: "\<not> failed (bw_flush b) \<Longrightarrow> held (bw_flush b) = []"
  by (auto simp: bw_flush_def split: prod.splits if_splits dest: sink_write_bounds)

lemma bw_turn_decreases:
  assumes "bw_turn p b = (n, b')" and "\<not> failed b'" and "avail b < length p"
  shows "held b' = [] \<and> (held b = [] \<longrightarrow> n = length p) \<and> n \<le> length p"
  using assms bw_flush_held
  by (auto simp: bw_turn_def split: if_splits prod.splits dest!: sink_write_bounds)

text \<open>The loop; the count it returns covers every byte taken out of the argument.\<close>

function bw_write :: "u8 list \<Rightarrow> bufw \<Rightarrow> nat \<times> bufw" where
  "bw_write p b =
    (if failed b then (0, b)
     else if length p \<le> avail b then (length p, b\<lparr>held := held b @ p\<rparr>)
     else (case bw_turn p b of
       (n, b') \<Rightarrow> (if failed b' then (n, b')
                   else (case bw_write (drop n p) b' of (m, b'') \<Rightarrow> (n + m, b'')))))"
  by pat_completeness auto
termination
proof (relation "measure (\<lambda>(p, b). 2 * length p + (if held b = [] then 0 else 1))", goal_cases)
  case (2 p b n b')
  then show ?case using bw_turn_decreases [of p b n b'] by (cases "held b = []") auto
qed simp

declare bw_write.simps [simp del]

section \<open>Facts\<close>

text \<open>What a call does to the writer: \<open>n\<close> bytes of \<open>p\<close> were taken, each of them is on the wire
  or held, in order, and the writes it made were full batches unless the connection failed.\<close>

definition bw_progress :: "u8 list \<Rightarrow> nat \<Rightarrow> bufw \<Rightarrow> bufw \<Rightarrow> bool" where
  "bw_progress p n b b' \<longleftrightarrow>
     bw_ok b' \<and> bsize b' = bsize b \<and> n \<le> length p \<and> (\<not> failed b' \<longrightarrow> n = length p)
     \<and> sink_bytes (sink_of b') @ held b' = sink_bytes (sink_of b) @ held b @ take n p
     \<and> (failed b \<longrightarrow> n = 0 \<and> b' = b)
     \<and> (\<exists>ws. writes (sink_of b') = writes (sink_of b) @ ws
            \<and> (failed b' \<or> list_all (\<lambda>x. bsize b \<le> length x) ws))"

lemma bw_turn_bytes:
  assumes "bw_turn p b = (n, b')" and "bw_ok b" and "\<not> failed b" and "avail b < length p"
  shows "bw_ok b' \<and> bsize b' = bsize b \<and> n \<le> length p
     \<and> sink_bytes (sink_of b') @ held b' = sink_bytes (sink_of b) @ held b @ take n p
     \<and> (\<exists>ws. writes (sink_of b') = writes (sink_of b) @ ws
            \<and> (failed b' \<or> list_all (\<lambda>x. bsize b \<le> length x) ws))"
proof (cases "held b = []")
  case True
  obtain m e w where w: "sink_write p (sink_of b) = (m, e, w)" by (cases "sink_write p (sink_of b)")
  with assms(1) True have b': "n = m" "b' = b\<lparr>failed := e, sink_of := w\<rparr>" by (simp_all add: bw_turn_def)
  show ?thesis
    using sink_write_bounds [OF w] True assms(2-4)
    by (auto simp: b' bw_ok_def sink_bytes_def avail_def)
next
  case False
  let ?c = "b\<lparr>held := held b @ take (avail b) p\<rparr>"
  have n: "n = avail b" and b': "b' = bw_flush ?c"
    using assms(1,4) False by (auto simp: bw_turn_def)
  have full: "length (held ?c) = bsize b"
    using assms(2,4) by (simp add: avail_def bw_ok_def)
  obtain m e w where w: "sink_write (held ?c) (sink_of b) = (m, e, w)"
    by (cases "sink_write (held ?c) (sink_of b)")
  have f: "b' = ?c\<lparr>held := drop m (held ?c), failed := e, sink_of := w\<rparr>"
    using w False assms(3) by (simp add: b' bw_flush_def)
  have bytes: "sink_bytes w = sink_bytes (sink_of b) @ take m (held ?c)"
    using sink_write_bounds [OF w] by (simp add: sink_bytes_def)
  have "bw_ok ?c" using full assms(2) by (simp add: bw_ok_def)
  then have "bw_ok b'" unfolding b' by simp
  moreover have "sink_bytes (sink_of b') @ held b' = sink_bytes (sink_of b) @ held b @ take n p"
    unfolding f n by (simp add: bytes del: take_append drop_append) 
  moreover have "writes (sink_of b') = writes (sink_of b) @ [take m (held ?c)]"
      "failed b' \<or> bsize b \<le> length (take m (held ?c))"
    using sink_write_bounds [OF w] full unfolding f by auto
  ultimately show ?thesis using assms(4) by (auto simp: n b')
qed

lemma bw_write_progress: "bw_ok b \<Longrightarrow> bw_write p b = (n, b') \<Longrightarrow> bw_progress p n b b'"
proof (induction p b arbitrary: n b' rule: bw_write.induct)
  case (1 p b)
  show ?case
  proof (cases "failed b \<or> length p \<le> avail b")
    case True
    then show ?thesis
      using 1(2,3) by (subst (asm) bw_write.simps) (auto simp: bw_progress_def bw_ok_def avail_def split: if_splits)
  next
    case False
    obtain m c where t: "bw_turn p b = (m, c)" by (cases "bw_turn p b")
    have s: "bw_ok c" "bsize c = bsize b" "m \<le> length p"
        "sink_bytes (sink_of c) @ held c = sink_bytes (sink_of b) @ held b @ take m p"
        "\<exists>ws. writes (sink_of c) = writes (sink_of b) @ ws \<and> (failed c \<or> list_all (\<lambda>x. bsize b \<le> length x) ws)"
      using bw_turn_bytes [OF t 1(2)] False by auto
    show ?thesis
    proof (cases "failed c")
      case True
      then have "n = m" "b' = c" using 1(3) False t by (subst (asm) bw_write.simps, simp)+
      then show ?thesis using s False True by (auto simp: bw_progress_def)
    next
      case ok: False
      obtain k d where r: "bw_write (drop m p) c = (k, d)" by (cases "bw_write (drop m p) c")
      have nb: "n = m + k" "b' = d" using 1(3) False t ok r by (subst (asm) bw_write.simps, simp)+
      have "bw_progress (drop m p) k c d"
        using 1(1) [OF _ _ t [symmetric] ok s(1) r] False by simp
      then show ?thesis
        using s ok False
        by (auto simp: bw_progress_def nb take_add)
    qed
  qed
qed

section \<open>Connections that never fail, and dead ones\<close>

text \<open>What every operation keeps of the connection: whether it can fail at all, and, once its
  budget is used up, every byte it accepted.\<close>

definition sink_le :: "sink \<Rightarrow> sink \<Rightarrow> bool" where
  "sink_le w w' \<longleftrightarrow>
     (room w' = None \<longleftrightarrow> room w = None)
     \<and> (room w = Some 0 \<longrightarrow> room w' = Some 0 \<and> sink_bytes w' = sink_bytes w)"

lemma sink_le_refl [simp]: "sink_le w w"
  by (simp add: sink_le_def)

lemma sink_le_trans: "sink_le w w' \<Longrightarrow> sink_le w' w'' \<Longrightarrow> sink_le w w''"
  by (auto simp: sink_le_def)

lemma sink_write_le: "sink_write p w = (n, e, w') \<Longrightarrow> sink_le w w' \<and> (room w = None \<longrightarrow> \<not> e)"
  by (auto simp: sink_write_def sink_le_def sink_bytes_def split: option.splits if_splits)

definition bw_le :: "bufw \<Rightarrow> bufw \<Rightarrow> bool" where
  "bw_le b b' \<longleftrightarrow>
     sink_le (sink_of b) (sink_of b') \<and> (room (sink_of b) = None \<and> \<not> failed b \<longrightarrow> \<not> failed b')"

lemma bw_le_trans: "bw_le b b' \<Longrightarrow> bw_le b' b'' \<Longrightarrow> bw_le b b''"
  by (auto simp: bw_le_def sink_le_def)

lemma bw_flush_le: "bw_le b (bw_flush b)"
  by (auto simp: bw_flush_def bw_le_def split: prod.splits dest: sink_write_le)

lemma bw_turn_le: "bw_turn p b = (n, b') \<Longrightarrow> bw_le b b'"
  using bw_flush_le [of "b\<lparr>held := held b @ take (avail b) p\<rparr>"]
  by (auto simp: bw_turn_def bw_le_def split: if_splits prod.splits dest: sink_write_le)

lemma bw_write_le: "bw_write p b = (n, b') \<Longrightarrow> bw_le b b'"
proof (induction p b arbitrary: n b' rule: bw_write.induct)
  case (1 p b)
  show ?case
  proof (cases "failed b \<or> length p \<le> avail b")
    case True
    then show ?thesis
      using 1(2) by (subst (asm) bw_write.simps) (auto simp: bw_le_def split: if_splits)
  next
    case False
    obtain m c where t: "bw_turn p b = (m, c)" by (cases "bw_turn p b")
    show ?thesis
    proof (cases "failed c")
      case True
      then show ?thesis
        using 1(2) False t bw_turn_le [OF t] by (subst (asm) bw_write.simps) simp
    next
      case ok: False
      obtain k d where r: "bw_write (drop m p) c = (k, d)" by (cases "bw_write (drop m p) c")
      have "b' = d" using 1(2) False t ok r by (subst (asm) bw_write.simps) simp
      moreover have "bw_le c d" using 1(1) [OF _ _ t [symmetric] ok r] False by simp
      ultimately show ?thesis using bw_le_trans [OF bw_turn_le [OF t]] by simp
    qed
  qed
qed

lemma bw_flush_bytes: "sink_bytes (sink_of (bw_flush b)) @ held (bw_flush b) = sink_bytes (sink_of b) @ held b"
  by (auto simp: bw_flush_def sink_bytes_def split: prod.splits dest!: sink_write_bounds)

lemma bw_flush_writes:
  "\<exists>ws. writes (sink_of (bw_flush b)) = writes (sink_of b) @ ws \<and> length ws \<le> 1"
  by (auto simp: bw_flush_def split: prod.splits dest!: sink_write_bounds)

end
