(* ===== verification/Wav.thy ===== *)
theory Wav imports Prelude begin

text \<open>
  The bytes of the audio: the WAV header of \<open>internal/server/stream.go\<close> and the tone chunk of
  \<open>internal/server/static.go\<close>. The header is written field by field into a zeroed buffer, as the
  code does. A reader of RIFF files, which walks the chunks by their sizes, is the reference the
  header is checked against.
\<close>

unbundle bit_operations_syntax

section \<open>Writing the header\<close>

definition ascii :: "string \<Rightarrow> u8 list" where
  "ascii s = map (\<lambda>c. word_of_nat (of_char c)) s"

text \<open>\<open>copy(h[a:b], x)\<close> and \<open>binary.LittleEndian.PutUint\<close> at an offset.\<close>

definition copy_at :: "nat \<Rightarrow> u8 list \<Rightarrow> u8 list \<Rightarrow> u8 list" where
  "copy_at off x h = take off h @ x @ drop (off + length x) h"

definition PutUint32 :: "nat \<Rightarrow> u32 \<Rightarrow> u8 list \<Rightarrow> u8 list" where
  "PutUint32 off v h = copy_at off (put_le 4 (unat v)) h"

definition PutUint16 :: "nat \<Rightarrow> u16 \<Rightarrow> u8 list \<Rightarrow> u8 list" where
  "PutUint16 off v h = copy_at off (put_le 2 (unat v)) h"

definition writeWAVHeader :: "u32 \<Rightarrow> u8 list" where
  "writeWAVHeader sampleRate =
    (let h = replicate 44 0;
         h = copy_at 0 (ascii ''RIFF'') h;
         h = PutUint32 4 0xFFFFFFFF h;
         h = copy_at 8 (ascii ''WAVE'') h;
         h = copy_at 12 (ascii ''fmt '') h;
         h = PutUint32 16 16 h;
         h = PutUint16 20 1 h;
         h = PutUint16 22 2 h;
         h = PutUint32 24 sampleRate h;
         h = PutUint32 28 (sampleRate * 2 * 2) h;
         h = PutUint16 32 4 h;
         h = PutUint16 34 16 h;
         h = copy_at 36 (ascii ''data'') h
     in PutUint32 40 0xFFFFFFFF h)"

text \<open>The same bytes as a sequence of fields.\<close>

definition wav_fields :: "u32 \<Rightarrow> u8 list" where
  "wav_fields r =
    ascii ''RIFF'' @ put_le 4 0xFFFFFFFF @ ascii ''WAVE''
    @ ascii ''fmt '' @ put_le 4 16
    @ (put_le 2 1 @ put_le 2 2 @ put_le 4 (unat r) @ put_le 4 (unat (r * 4)) @ put_le 2 4 @ put_le 2 16)
    @ ascii ''data'' @ put_le 4 0xFFFFFFFF"

lemma length_ascii [simp]: "length (ascii s) = length s"
  by (simp add: ascii_def)

text \<open>Writing at the end of what is filled already.\<close>

lemma copy_fill:
  "length x \<le> n \<Longrightarrow> copy_at 0 x (replicate n 0) = x @ replicate (n - length x) 0"
  "length a = off \<Longrightarrow> length x \<le> n \<Longrightarrow> copy_at off x (a @ replicate n 0) = (a @ x) @ replicate (n - length x) 0"
  by (simp_all add: copy_at_def drop_replicate)

lemma writeWAVHeader_fields: "writeWAVHeader r = wav_fields r"
  unfolding writeWAVHeader_def wav_fields_def PutUint32_def PutUint16_def Let_def
  by (simp add: copy_fill mult.assoc del: append_assoc)

lemma length_writeWAVHeader [simp]: "length (writeWAVHeader r) = 44"
  by (simp add: writeWAVHeader_fields wav_fields_def)

section \<open>A reader of RIFF files\<close>

record wav_format =
  audio_format :: nat
  channels :: nat
  sample_rate :: nat
  byte_rate :: nat
  block_align :: nat
  bits_per_sample :: nat

definition read_format :: "u8 list \<Rightarrow> wav_format" where
  "read_format b =
    \<lparr>audio_format = get_le (take 2 b), channels = get_le (take 2 (drop 2 b)),
     sample_rate = get_le (take 4 (drop 4 b)), byte_rate = get_le (take 4 (drop 8 b)),
     block_align = get_le (take 2 (drop 12 b)), bits_per_sample = get_le (take 2 (drop 14 b))\<rparr>"

text \<open>The chunks of a file: an identifier, a size, the body, padded to an even length. The result
  is the format and the body of the data chunk, cut at its size.\<close>

function read_chunks :: "wav_format option \<Rightarrow> u8 list \<Rightarrow> (wav_format \<times> u8 list) option" where
  "read_chunks fmt b =
    (if length b < 8 then None
     else let n = get_le (take 4 (drop 4 b)); body = drop 8 b
          in if take 4 b = ascii ''data'' then (case fmt of None \<Rightarrow> None | Some f \<Rightarrow> Some (f, take n body))
             else read_chunks (if take 4 b = ascii ''fmt '' then Some (read_format body) else fmt)
                    (drop (n + n mod 2) body))"
  by pat_completeness auto
termination by (relation "measure (\<lambda>(f, b). length b)") auto

declare read_chunks.simps [simp del]

definition read_wav :: "u8 list \<Rightarrow> (wav_format \<times> u8 list) option" where
  "read_wav b =
    (if take 4 b = ascii ''RIFF'' \<and> take 4 (drop 8 b) = ascii ''WAVE'' then read_chunks None (drop 12 b) else None)"

text \<open>16-bit samples, little-endian.\<close>

fun samples :: "u8 list \<Rightarrow> u16 list" where
  "samples (lo # hi # b) = (ucast lo OR push_bit 8 (ucast hi)) # samples b"
| "samples _ = []"

text \<open>C18: the header the server sends is a well-formed WAV header: a RIFF reader finds 16-bit
  stereo PCM at exactly the source's sample rate, with the byte rate and block size that belong
  to it, and takes everything that follows (up to the largest size the format can state) as
  audio, unchanged.\<close>

theorem wav_header_read_back:
  "read_wav (writeWAVHeader r @ payload) =
    Some (\<lparr>audio_format = 1, channels = 2, sample_rate = unat r, byte_rate = unat (r * 4),
           block_align = 4, bits_per_sample = 16\<rparr>, take 0xFFFFFFFF payload)"
proof -
  let ?f = "put_le 2 1 @ put_le 2 2 @ put_le 4 (unat r) @ put_le 4 (unat (r * 4)) @ put_le 2 4 @ put_le 2 16"
  let ?d = "ascii ''data'' @ put_le 4 0xFFFFFFFF @ payload"
  have small: "unat r < 256 ^ 4" "unat (r * 4) < 256 ^ 4"
    using unsigned_less [of r] unsigned_less [of "r * 4"] by simp_all
  have ne: "ascii ''fmt '' \<noteq> ascii ''data''" by code_simp
  have "read_chunks None (ascii ''fmt '' @ put_le 4 16 @ ?f @ ?d) = read_chunks (Some (read_format (?f @ ?d))) ?d"
    using ne by (subst read_chunks.simps) (simp add: get_put_le Let_def)
  also have "\<dots> = Some (read_format (?f @ ?d), take 0xFFFFFFFF payload)"
    by (subst read_chunks.simps) (simp add: get_put_le Let_def)
  also have "read_format (?f @ ?d) = \<lparr>audio_format = 1, channels = 2, sample_rate = unat r, byte_rate = unat (r * 4),
           block_align = 4, bits_per_sample = 16\<rparr>"
    using small by (simp add: read_format_def get_put_le)
  finally show ?thesis by (simp add: read_wav_def writeWAVHeader_fields wav_fields_def)
qed

section \<open>The tone\<close>

text \<open>\<open>sample i\<close> is the 16-bit value the code computes for index \<open>i\<close>; the sine is the standard
  library's.\<close>

definition sineChunk :: "(nat \<Rightarrow> u16) \<Rightarrow> u8 list" where
  "sineChunk sample = concat (map (\<lambda>i. [ucast (sample i), ucast (drop_bit 8 (sample i))]) [0..<2048])"

lemma length_sineChunk: "length (sineChunk sample) = 4096"
  by (simp add: sineChunk_def length_concat comp_def sum_list_triv)

lemma samples_bytes: "samples (concat (map (\<lambda>i. [ucast (f i), ucast (drop_bit 8 (f i))]) is)) = map f is"
proof (induction "is")
  case (Cons i "is")
  have "(ucast (ucast (f i) :: u8) OR push_bit 8 (ucast (ucast (drop_bit 8 (f i)) :: u8)) :: u16) = f i"
    by (rule bit_word_eqI) (auto simp: bit_simps)
  then show ?case using Cons by simp
qed simp

lemma samples_sineChunk: "samples (sineChunk sample) = map sample [0..<2048]"
  unfolding sineChunk_def by (rule samples_bytes)

end
