(* ===== verification/Recorder.thy ===== *)
theory Recorder imports GoChan begin

text \<open>
  \<open>internal/audio/recorder.go\<close> (and \<open>audio.go\<close>): the \<open>PulseRecorder\<close>. Its fields are a record;
  \<open>Start\<close>, \<open>Stop\<close>, \<open>Flush\<close>, \<open>Chunks\<close> and \<open>Done\<close> are functions on it, each atomic because it
  holds the mutex. The pump goroutine is a program counter with its local variables; one
  transition of the system is one atomic action of the pump (a \<open>select\<close>, a \<open>Read\<close>, one
  non-blocking send) or one action of another goroutine. The system also carries three
  history variables the code does not have: the bytes read from the source, the chunks
  the pump emitted with whether each was sent, and the chunks taken out of the channel.
\<close>

section \<open>Constants and fields\<close>

definition SampleRate :: nat where "SampleRate = 22050"

definition ByteRate :: u32 where "ByteRate = word_of_nat SampleRate * 2 * 2"

definition defaultChunkSize :: int where "defaultChunkSize = 4096"
definition defaultBufferLen :: int where "defaultBufferLen = 256"

type_synonym chunk = "u8 list"

text \<open>
  A \<open>chan struct{}\<close> used as a flag is \<open>None\<close> when nil, and otherwise whether it is closed.
\<close>

record PulseRecorder =
  ChunkSize :: int
  BufferLen :: int
  chunksSent :: u64
  dropped :: u64
  chunkCh :: "chunk chan option"
  stopCh :: "bool option"
  doneCh :: "bool option"
  stopped :: bool
  startOnce :: bool

definition new_recorder :: "int \<Rightarrow> int \<Rightarrow> PulseRecorder" where
  "new_recorder cs bl =
    \<lparr>ChunkSize = cs, BufferLen = bl, chunksSent = 0, dropped = 0, chunkCh = None,
     stopCh = None, doneCh = None, stopped = False, startOnce = False\<rparr>"

section \<open>The operations\<close>

definition chunkSize :: "PulseRecorder \<Rightarrow> nat" where
  "chunkSize p = nat (if ChunkSize p > 0 then ChunkSize p else defaultChunkSize)"

definition bufferLen :: "PulseRecorder \<Rightarrow> nat" where
  "bufferLen p = nat (if BufferLen p > 0 then BufferLen p else defaultBufferLen)"

definition newChunkChan :: "PulseRecorder \<Rightarrow> PulseRecorder" where
  "newChunkChan p =
    (case chunkCh p of None \<Rightarrow> p\<lparr>chunkCh := Some (make_chan (bufferLen p))\<rparr> | Some ch \<Rightarrow> p)"

definition RecChunks :: "PulseRecorder \<Rightarrow> chunk chan option \<times> PulseRecorder" where
  "RecChunks p = (let q = newChunkChan p in (chunkCh q, q))"

definition RecStart :: "PulseRecorder \<Rightarrow> PulseRecorder" where
  "RecStart p =
    (let q = newChunkChan p
     in if startOnce q then q
        else q\<lparr>startOnce := True, stopCh := Some False, doneCh := Some False\<rparr>)"

definition RecStop :: "PulseRecorder \<Rightarrow> PulseRecorder" where
  "RecStop p =
    (let q = (if stopCh p = None then p\<lparr>stopCh := Some False\<rparr> else p)
     in if \<not> stopped q then q\<lparr>stopCh := Some True, stopped := True\<rparr> else q)"

definition RecFlush :: "PulseRecorder \<Rightarrow> PulseRecorder" where
  "RecFlush p =
    (case chunkCh p of None \<Rightarrow> p | Some ch \<Rightarrow> p\<lparr>chunkCh := Some (snd (drain ch))\<rparr>)"

definition RecDone :: "PulseRecorder \<Rightarrow> bool option" where
  "RecDone p = doneCh p"

definition RecChunksSent :: "PulseRecorder \<Rightarrow> u64" where
  "RecChunksSent p = chunksSent p"

definition RecDropped :: "PulseRecorder \<Rightarrow> u64" where
  "RecDropped p = dropped p"

definition RecSampleRate :: "PulseRecorder \<Rightarrow> u32" where
  "RecSampleRate p = word_of_nat SampleRate"

section \<open>The pump goroutine\<close>

text \<open>
  \<open>PSelect\<close> is the top of the loop, \<open>PRead\<close> the blocking read, \<open>PEmit err\<close> the inner loop with
  the error the read returned, \<open>PDone\<close> the end, after the deferred \<open>close(p.done)\<close>.
\<close>

datatype pump_pc = PNone | PSelect | PRead | PEmit goerror | PDone

record rec_sys =
  rcd :: PulseRecorder
  accum :: chunk
  pc :: pump_pc
  cancelled :: bool
  src_bytes :: chunk
  emitted :: "(bool \<times> chunk) list"
  taken :: "chunk list"

definition init_sys :: "int \<Rightarrow> int \<Rightarrow> rec_sys" where
  "init_sys cs bl =
    \<lparr>rcd = new_recorder cs bl, accum = [], pc = PNone, cancelled = False, src_bytes = [],
     emitted = [], taken = []\<rparr>"

text \<open>
  The actions: the four calls of other goroutines, the cancellation of the context, one
  receive (by a consumer or inside a concurrent \<open>Flush\<close>), and the steps of the pump.
  \<open>ActRead bs err\<close> is a \<open>Read\<close> that returned the bytes \<open>bs\<close> and the error \<open>err\<close>; by the
  contract of \<open>io.Reader\<close> it returns at most as many bytes as the buffer holds.
\<close>

datatype action =
    ActStart | ActStop | ActChunks | ActFlush | ActCancel | ActTake
  | ActSelect | ActRead chunk goerror | ActEmit

definition pump_exit :: "rec_sys \<Rightarrow> rec_sys" where
  "pump_exit s = s\<lparr>pc := PDone, rcd := (rcd s)\<lparr>doneCh := Some True\<rparr>\<rparr>"

definition step_select :: "rec_sys \<Rightarrow> rec_sys option" where
  "step_select s =
    (if pc s \<noteq> PSelect then None
     else if cancelled s \<or> stopCh (rcd s) = Some True then Some (pump_exit s)
     else Some (s\<lparr>pc := PRead\<rparr>))"

definition step_read :: "chunk \<Rightarrow> goerror \<Rightarrow> rec_sys \<Rightarrow> rec_sys option" where
  "step_read bs err s =
    (if pc s = PRead \<and> length bs \<le> chunkSize (rcd s)
     then Some (s\<lparr>accum := accum s @ bs, src_bytes := src_bytes s @ bs, pc := PEmit err\<rparr>)
     else None)"

definition step_emit :: "rec_sys \<Rightarrow> rec_sys option" where
  "step_emit s =
    (case (pc s, chunkCh (rcd s)) of
       (PEmit err, Some ch) \<Rightarrow>
         (let cs = chunkSize (rcd s)
          in if cs \<le> length (accum s)
             then (let c = take cs (accum s); s1 = s\<lparr>accum := drop cs (accum s)\<rparr>
                   in case try_send c ch of
                        Some ch' \<Rightarrow> Some (s1\<lparr>rcd := (rcd s)\<lparr>chunkCh := Some ch', chunksSent := chunksSent (rcd s) + 1\<rparr>,
                                          emitted := emitted s @ [(True, c)]\<rparr>)
                      | None \<Rightarrow> Some (s1\<lparr>rcd := (rcd s)\<lparr>dropped := dropped (rcd s) + 1\<rparr>,
                                        emitted := emitted s @ [(False, c)]\<rparr>))
             else (if err \<noteq> None then Some (pump_exit s) else Some (s\<lparr>pc := PSelect\<rparr>)))
     | _ \<Rightarrow> None)"

definition step_take :: "rec_sys \<Rightarrow> rec_sys option" where
  "step_take s =
    (case chunkCh (rcd s) of
       None \<Rightarrow> None
     | Some ch \<Rightarrow> (case try_recv ch of
         None \<Rightarrow> None
       | Some (c, ch') \<Rightarrow> Some (s\<lparr>rcd := (rcd s)\<lparr>chunkCh := Some ch'\<rparr>, taken := taken s @ [c]\<rparr>)))"

definition step_start :: "rec_sys \<Rightarrow> rec_sys" where
  "step_start s = s\<lparr>rcd := RecStart (rcd s), pc := (if startOnce (rcd s) then pc s else PSelect)\<rparr>"

definition step_flush :: "rec_sys \<Rightarrow> rec_sys" where
  "step_flush s =
    s\<lparr>rcd := RecFlush (rcd s),
      taken := taken s @ (case chunkCh (rcd s) of None \<Rightarrow> [] | Some ch \<Rightarrow> fst (drain ch))\<rparr>"

fun rec_step :: "action \<Rightarrow> rec_sys \<Rightarrow> rec_sys option" where
  "rec_step ActStart s = Some (step_start s)"
| "rec_step ActStop s = Some (s\<lparr>rcd := RecStop (rcd s)\<rparr>)"
| "rec_step ActChunks s = Some (s\<lparr>rcd := snd (RecChunks (rcd s))\<rparr>)"
| "rec_step ActFlush s = Some (step_flush s)"
| "rec_step ActCancel s = Some (s\<lparr>cancelled := True\<rparr>)"
| "rec_step ActTake s = step_take s"
| "rec_step ActSelect s = step_select s"
| "rec_step (ActRead bs err) s = step_read bs err s"
| "rec_step ActEmit s = step_emit s"

fun rec_run :: "action list \<Rightarrow> rec_sys \<Rightarrow> rec_sys option" where
  "rec_run [] s = Some s"
| "rec_run (a # as) s = (case rec_step a s of None \<Rightarrow> None | Some t \<Rightarrow> rec_run as t)"

inductive rec_reach :: "int \<Rightarrow> int \<Rightarrow> rec_sys \<Rightarrow> bool" for cs bl where
  rec_init: "rec_reach cs bl (init_sys cs bl)"
| rec_next: "rec_reach cs bl s \<Longrightarrow> rec_step a s = Some t \<Longrightarrow> rec_reach cs bl t"

lemma rec_run_reach: "rec_run as s = Some t \<Longrightarrow> rec_reach cs bl s \<Longrightarrow> rec_reach cs bl t"
  by (induction as arbitrary: s) (auto split: option.splits intro: rec_reach.intros)

lemma rec_run_append:
  "rec_run (as @ bs) s = (case rec_run as s of None \<Rightarrow> None | Some t \<Rightarrow> rec_run bs t)"
  by (induction as arbitrary: s) (auto split: option.splits)

section \<open>Facts about the operations\<close>

lemma chunkSize_pos [simp]: "0 < chunkSize p"
  by (simp add: chunkSize_def defaultChunkSize_def)

lemma bufferLen_pos [simp]: "0 < bufferLen p"
  by (simp add: bufferLen_def defaultBufferLen_def)

lemmas recorder_op_defs =
  newChunkChan_def RecStart_def RecStop_def RecFlush_def RecChunks_def Let_def drain_all

lemma config_fields [simp]:
  "ChunkSize (newChunkChan p) = ChunkSize p" "BufferLen (newChunkChan p) = BufferLen p"
  "ChunkSize (RecStart p) = ChunkSize p" "BufferLen (RecStart p) = BufferLen p"
  "ChunkSize (RecStop p) = ChunkSize p" "BufferLen (RecStop p) = BufferLen p"
  "ChunkSize (RecFlush p) = ChunkSize p" "BufferLen (RecFlush p) = BufferLen p"
  by (auto simp: recorder_op_defs split: option.splits)

lemma counter_fields [simp]:
  "chunksSent (newChunkChan p) = chunksSent p" "dropped (newChunkChan p) = dropped p"
  "chunksSent (RecStart p) = chunksSent p" "dropped (RecStart p) = dropped p"
  "chunksSent (RecStop p) = chunksSent p" "dropped (RecStop p) = dropped p"
  "chunksSent (RecFlush p) = chunksSent p" "dropped (RecFlush p) = dropped p"
  by (auto simp: recorder_op_defs split: option.splits)

lemma size_fields [simp]:
  "chunkSize (newChunkChan p) = chunkSize p" "bufferLen (newChunkChan p) = bufferLen p"
  "chunkSize (RecStart p) = chunkSize p" "bufferLen (RecStart p) = bufferLen p"
  "chunkSize (RecStop p) = chunkSize p" "bufferLen (RecStop p) = bufferLen p"
  "chunkSize (RecFlush p) = chunkSize p" "bufferLen (RecFlush p) = bufferLen p"
  "chunkSize (p\<lparr>chunkCh := x\<rparr>) = chunkSize p" "bufferLen (p\<lparr>chunkCh := x\<rparr>) = bufferLen p"
  "chunkSize (p\<lparr>chunksSent := n\<rparr>) = chunkSize p" "bufferLen (p\<lparr>chunksSent := n\<rparr>) = bufferLen p"
  "chunkSize (p\<lparr>dropped := n\<rparr>) = chunkSize p" "bufferLen (p\<lparr>dropped := n\<rparr>) = bufferLen p"
  "chunkSize (p\<lparr>doneCh := d\<rparr>) = chunkSize p" "bufferLen (p\<lparr>doneCh := d\<rparr>) = bufferLen p"
  "chunkSize (p\<lparr>stopCh := d\<rparr>) = chunkSize p" "bufferLen (p\<lparr>stopCh := d\<rparr>) = bufferLen p"
  "chunkSize (p\<lparr>stopped := b\<rparr>) = chunkSize p" "bufferLen (p\<lparr>stopped := b\<rparr>) = bufferLen p"
  "chunkSize (p\<lparr>startOnce := b\<rparr>) = chunkSize p" "bufferLen (p\<lparr>startOnce := b\<rparr>) = bufferLen p"
  by (simp_all add: chunkSize_def bufferLen_def)

text \<open>The four outcomes of one turn of the inner loop.\<close>

lemma step_emit_cases:
  assumes "step_emit s = Some t"
  obtains (sent) err ch where "pc s = PEmit err" "chunkCh (rcd s) = Some ch"
      "length (buf ch) < cap ch" "chunkSize (rcd s) \<le> length (accum s)"
      "t = s\<lparr>accum := drop (chunkSize (rcd s)) (accum s),
             rcd := (rcd s)\<lparr>chunkCh := Some (ch\<lparr>buf := buf ch @ [take (chunkSize (rcd s)) (accum s)]\<rparr>),
                           chunksSent := chunksSent (rcd s) + 1\<rparr>,
             emitted := emitted s @ [(True, take (chunkSize (rcd s)) (accum s))]\<rparr>"
    | (full) err ch where "pc s = PEmit err" "chunkCh (rcd s) = Some ch"
      "cap ch \<le> length (buf ch)" "chunkSize (rcd s) \<le> length (accum s)"
      "t = s\<lparr>accum := drop (chunkSize (rcd s)) (accum s),
             rcd := (rcd s)\<lparr>dropped := dropped (rcd s) + 1\<rparr>,
             emitted := emitted s @ [(False, take (chunkSize (rcd s)) (accum s))]\<rparr>"
    | (ended) e ch where "pc s = PEmit (Some e)" "chunkCh (rcd s) = Some ch"
      "length (accum s) < chunkSize (rcd s)" "t = pump_exit s"
    | (again) ch where "pc s = PEmit None" "chunkCh (rcd s) = Some ch"
      "length (accum s) < chunkSize (rcd s)" "t = s\<lparr>pc := PSelect\<rparr>"
  using assms
  by (auto simp: step_emit_def Let_def try_send_Some try_send_None not_le
      split: pump_pc.splits option.splits if_splits)

lemma step_take_cases:
  assumes "step_take s = Some t"
  obtains ch c cs where "chunkCh (rcd s) = Some ch" "buf ch = c # cs"
    "t = s\<lparr>rcd := (rcd s)\<lparr>chunkCh := Some (ch\<lparr>buf := cs\<rparr>)\<rparr>, taken := taken s @ [c]\<rparr>"
  using assms by (auto simp: step_take_def try_recv_Some split: option.splits)

section \<open>Invariants\<close>

text \<open>Framing: nothing read from the source is lost or reordered between the emitted chunks
  and the bytes not yet emitted, and every chunk has the configured size.\<close>

definition framing :: "int \<Rightarrow> int \<Rightarrow> rec_sys \<Rightarrow> bool" where
  "framing cs bl s \<longleftrightarrow>
     ChunkSize (rcd s) = cs \<and> BufferLen (rcd s) = bl
     \<and> concat (map snd (emitted s)) @ accum s = src_bytes s
     \<and> list_all (\<lambda>e. length (snd e) = chunkSize (rcd s)) (emitted s)"

text \<open>Queueing: what the pump sent is, in order, what was taken out followed by what the
  channel still holds, and the channel never holds more than its capacity.\<close>

definition queueing :: "rec_sys \<Rightarrow> bool" where
  "queueing s \<longleftrightarrow>
     (case chunkCh (rcd s) of
        None \<Rightarrow> emitted s = [] \<and> taken s = [] \<and> pc s = PNone
      | Some ch \<Rightarrow> cap ch = bufferLen (rcd s) \<and> chan_ok ch
                   \<and> map snd (filter fst (emitted s)) = taken s @ buf ch)"

definition counting :: "rec_sys \<Rightarrow> bool" where
  "counting s \<longleftrightarrow>
     chunksSent (rcd s) = word_of_nat (length (filter fst (emitted s)))
     \<and> dropped (rcd s) = word_of_nat (length (filter (\<lambda>e. \<not> fst e) (emitted s)))"

definition control :: "rec_sys \<Rightarrow> bool" where
  "control s \<longleftrightarrow>
     (pc s = PNone \<longleftrightarrow> \<not> startOnce (rcd s))
     \<and> doneCh (rcd s) = (case pc s of PNone \<Rightarrow> None | PDone \<Rightarrow> Some True | _ \<Rightarrow> Some False)
     \<and> (case pc s of PEmit _ \<Rightarrow> length (accum s) < 2 * chunkSize (rcd s)
                   | _ \<Rightarrow> length (accum s) < chunkSize (rcd s))"

lemma init_invs:
  "framing cs bl (init_sys cs bl)" "queueing (init_sys cs bl)" "counting (init_sys cs bl)"
  "control (init_sys cs bl)"
  by (simp_all add: framing_def queueing_def counting_def control_def init_sys_def new_recorder_def)

text \<open>Each invariant is kept by every action: the three steps that move data are treated by
  their case rules, the others change one field.\<close>

lemmas op_step_simps = step_start_def step_flush_def step_select_def step_read_def pump_exit_def

lemma framing_step:
  assumes "framing cs bl s" and "rec_step a s = Some t"
  shows "framing cs bl t"
proof (cases a)
  case ActEmit
  then have "step_emit s = Some t" using assms(2) by simp
  then show ?thesis
    using assms(1) by (cases rule: step_emit_cases) (auto simp: framing_def pump_exit_def)
next
  case ActTake
  then have "step_take s = Some t" using assms(2) by simp
  then show ?thesis
    using assms(1) by (cases rule: step_take_cases) (auto simp: framing_def)
qed (use assms in \<open>auto simp: framing_def op_step_simps RecChunks_def Let_def simp flip: append_assoc
      split: if_splits\<close>)

lemma counting_step:
  assumes "counting s" and "rec_step a s = Some t"
  shows "counting t"
proof (cases a)
  case ActEmit
  then have "step_emit s = Some t" using assms(2) by simp
  then show ?thesis
    using assms(1) by (cases rule: step_emit_cases) (auto simp: counting_def pump_exit_def)
next
  case ActTake
  then have "step_take s = Some t" using assms(2) by simp
  then show ?thesis
    using assms(1) by (cases rule: step_take_cases) (auto simp: counting_def)
qed (use assms in \<open>auto simp: counting_def op_step_simps RecChunks_def Let_def split: if_splits\<close>)

lemma control_step:
  assumes "control s" and "rec_step a s = Some t"
  shows "control t"
proof (cases a)
  case ActEmit
  then have "step_emit s = Some t" using assms(2) by simp
  then show ?thesis
    using assms(1) by (cases rule: step_emit_cases) (auto simp: control_def pump_exit_def)
next
  case ActTake
  then have "step_take s = Some t" using assms(2) by simp
  then show ?thesis
    using assms(1) by (cases rule: step_take_cases) (auto simp: control_def split: pump_pc.splits)
qed (use assms in \<open>auto simp: control_def op_step_simps recorder_op_defs
      split: if_splits pump_pc.splits option.splits\<close>)

lemma queueing_step:
  assumes "queueing s" and "control s" and "rec_step a s = Some t"
  shows "queueing t"
proof (cases a)
  case ActEmit
  then have "step_emit s = Some t" using assms(3) by simp
  then show ?thesis
    using assms(1) by (cases rule: step_emit_cases) (auto simp: queueing_def pump_exit_def chan_ok_def)
next
  case ActTake
  then have "step_take s = Some t" using assms(3) by simp
  then show ?thesis
    using assms(1) by (cases rule: step_take_cases) (auto simp: queueing_def chan_ok_def)
qed (use assms in \<open>auto simp: queueing_def control_def op_step_simps recorder_op_defs chan_ok_def
      split: if_splits option.splits\<close>)

lemma reach_invs:
  assumes "rec_reach cs bl s"
  shows "framing cs bl s" and "queueing s" and "counting s" and "control s"
  using assms
  by (induction rule: rec_reach.induct)
    (blast intro: init_invs framing_step queueing_step counting_step control_step)+

section \<open>Properties\<close>

text \<open>C19: the recorder frames the source without loss: in every reachable state the emitted
  chunks (sent or dropped), in order, followed by the bytes still accumulated, are exactly the
  bytes read from the source; every chunk has the configured size, and between reads less
  than one chunk is held back.\<close>

theorem recorder_framing:
  assumes "rec_reach cs bl s"
  shows "concat (map snd (emitted s)) @ accum s = src_bytes s
    \<and> list_all (\<lambda>c. length c = chunkSize (new_recorder cs bl)) (map snd (emitted s))
    \<and> length (accum s) < (case pc s of PEmit _ \<Rightarrow> 2 | _ \<Rightarrow> 1) * chunkSize (new_recorder cs bl)"
proof -
  note f = reach_invs(1) [OF assms] and c = reach_invs(4) [OF assms]
  have "chunkSize (rcd s) = chunkSize (new_recorder cs bl)"
    using f by (simp add: framing_def chunkSize_def new_recorder_def)
  then show ?thesis
    using f c by (auto simp: framing_def control_def list.pred_map comp_def split: pump_pc.splits)
qed

text \<open>consumers see the stream in order and without duplicates: what left the channel
  followed by what it holds is exactly the sequence of chunks sent, a subsequence of all
  chunks emitted; the channel never exceeds its configured capacity; and if no chunk was
  dropped, taken, buffered and accumulated bytes together are the whole source.\<close>

theorem recorder_delivery:
  assumes "rec_reach cs bl s" and "chunkCh (rcd s) = Some ch"
  shows "taken s @ buf ch = map snd (filter fst (emitted s))
    \<and> subseq (taken s @ buf ch) (map snd (emitted s))
    \<and> length (buf ch) \<le> bufferLen (new_recorder cs bl)
    \<and> (list_all fst (emitted s) \<longrightarrow> concat (taken s @ buf ch) @ accum s = src_bytes s)"
proof -
  note f = reach_invs(1) [OF assms(1)] and q = reach_invs(2) [OF assms(1)]
  have b: "bufferLen (rcd s) = bufferLen (new_recorder cs bl)"
    using f by (simp add: framing_def bufferLen_def new_recorder_def)
  have q': "map snd (filter fst (emitted s)) = taken s @ buf ch" "length (buf ch) \<le> bufferLen (rcd s)"
    using q assms(2) by (auto simp: queueing_def chan_ok_def)
  have sub: "subseq (taken s @ buf ch) (map snd (emitted s))"
    unfolding q'(1) [symmetric] by (intro subseq_map subseq_filter_left)
  have "concat (taken s @ buf ch) @ accum s = src_bytes s" if "list_all fst (emitted s)"
  proof -
    have "filter fst (emitted s) = emitted s" using that by (simp add: filter_id_conv list_all_iff)
    then show ?thesis using f unfolding q'(1) [symmetric] by (simp add: framing_def)
  qed
  then show ?thesis using q' b sub by simp
qed

text \<open>the telemetry counters are exact (modulo the width of the counter): the sent counter
  counts the chunks that entered the channel, the dropped counter those that did not, and
  together they count every chunk of the source.\<close>

theorem recorder_counters:
  assumes "rec_reach cs bl s"
  shows "chunksSent (rcd s) = word_of_nat (length (filter fst (emitted s)))
    \<and> dropped (rcd s) = word_of_nat (length (filter (\<lambda>e. \<not> fst e) (emitted s)))
    \<and> chunksSent (rcd s) + dropped (rcd s) = word_of_nat (length (emitted s))"
proof -
  have "length (emitted s) = length (filter fst (emitted s)) + length (filter (\<lambda>e. \<not> fst e) (emitted s))"
    using sum_length_filter_compl [of fst "emitted s"] by simp
  then show ?thesis using reach_invs(3) [OF assms] by (simp add: counting_def)
qed

text \<open>A pump that has just read emits at most one chunk before it looks at its channels again.\<close>

lemma emit_finishes:
  assumes "rec_reach cs bl s" and "pc s = PEmit err"
  shows "\<exists>n t. n \<le> 2 \<and> rec_run (replicate n ActEmit) s = Some t
    \<and> pc t = (if err = None then PSelect else PDone) \<and> stopCh (rcd t) = stopCh (rcd s)
    \<and> cancelled t = cancelled s"
proof -
  have last: "\<exists>t. step_emit s = Some t \<and> pc t = (if err = None then PSelect else PDone)
      \<and> stopCh (rcd t) = stopCh (rcd s) \<and> cancelled t = cancelled s"
    if "rec_reach cs bl s" "pc s = PEmit err" "length (accum s) < chunkSize (rcd s)" for s
    using reach_invs(2) [OF that(1)] that(2,3)
    by (auto simp: step_emit_def queueing_def pump_exit_def Let_def split: option.splits)
  show ?thesis
  proof (cases "length (accum s) < chunkSize (rcd s)")
    case True
    then obtain t where "step_emit s = Some t" "pc t = (if err = None then PSelect else PDone)"
        "stopCh (rcd t) = stopCh (rcd s)" "cancelled t = cancelled s"
      using last [OF assms] by blast
    then show ?thesis by (intro exI [of _ "1::nat"] exI [of _ t]) simp
  next
    case False
    obtain ch where ch: "chunkCh (rcd s) = Some ch"
      using reach_invs(2) [OF assms(1)] assms(2) by (auto simp: queueing_def split: option.splits)
    obtain u where u: "step_emit s = Some u" "pc u = PEmit err" "stopCh (rcd u) = stopCh (rcd s)"
        "cancelled u = cancelled s" "accum u = drop (chunkSize (rcd s)) (accum s)"
        "chunkSize (rcd u) = chunkSize (rcd s)"
      using False assms(2) ch
      by (cases "try_send (take (chunkSize (rcd s)) (accum s)) ch") (auto simp: step_emit_def Let_def)
    have ru: "rec_reach cs bl u" using u(1) assms(1) by (auto intro: rec_next [of cs bl s ActEmit])
    have "length (accum s) < 2 * chunkSize (rcd s)"
      using reach_invs(4) [OF assms(1)] assms(2) by (simp add: control_def)
    then have "length (accum u) < chunkSize (rcd u)" using u by simp
    then obtain t where "step_emit u = Some t" "pc t = (if err = None then PSelect else PDone)"
        "stopCh (rcd t) = stopCh (rcd u)" "cancelled t = cancelled u"
      using last [OF ru u(2)] by blast
    then show ?thesis using u
      by (intro exI [of _ "2::nat"] exI [of _ t]) (simp add: numeral_2_eq_2)
  qed
qed

text \<open>stopping is prompt: once the stop channel is closed or the context is cancelled, a
  pump that is not blocked inside the source's \<open>Read\<close> reaches its end within three of its
  own steps, reading nothing more, and its end closes the done channel.\<close>

theorem recorder_stop_prompt:
  assumes "rec_reach cs bl s" and "pc s = PSelect \<or> (\<exists>err. pc s = PEmit err)"
    and "stopCh (rcd s) = Some True \<or> cancelled s"
  shows "\<exists>as t. length as \<le> 3 \<and> set as \<subseteq> {ActEmit, ActSelect} \<and> rec_run as s = Some t
    \<and> pc t = PDone \<and> RecDone (rcd t) = Some True"
proof -
  have fin: "\<exists>t. step_select s = Some t \<and> pc t = PDone \<and> RecDone (rcd t) = Some True"
    if "pc s = PSelect" "stopCh (rcd s) = Some True \<or> cancelled s" for s
    using that by (auto simp: step_select_def pump_exit_def RecDone_def)
  show ?thesis
  proof (cases "pc s = PSelect")
    case True
    with fin [OF True assms(3)] show ?thesis by (intro exI [of _ "[ActSelect]"]) auto
  next
    case False
    then obtain err where e: "pc s = PEmit err" using assms(2) by auto
    obtain n t where n: "n \<le> 2" "rec_run (replicate n ActEmit) s = Some t"
        "pc t = (if err = None then PSelect else PDone)" "stopCh (rcd t) = stopCh (rcd s)"
        "cancelled t = cancelled s"
      using emit_finishes [OF assms(1) e] by blast
    show ?thesis
    proof (cases "err = None")
      case True
      then obtain u where u: "step_select t = Some u" "pc u = PDone" "RecDone (rcd u) = Some True"
        using fin [of t] n assms(3) by auto
      have "rec_run (replicate n ActEmit @ [ActSelect]) s = Some u"
        using n(2) u(1) by (simp add: rec_run_append)
      then show ?thesis using n(1) u by (intro exI [of _ "replicate n ActEmit @ [ActSelect]"]) auto
    next
      case False
      have "rec_reach cs bl t" using n(2) assms(1) by (rule rec_run_reach)
      then have "RecDone (rcd t) = Some True"
        using n(3) False reach_invs(4) by (auto simp: control_def RecDone_def)
      then show ?thesis using n False by (intro exI [of _ "replicate n ActEmit"]) auto
    qed
  qed
qed

text \<open>\<open>Stop\<close> before \<open>Start\<close> is not a no-op: it uses up the one close of the stop channel,
  which \<open>Start\<close> then replaces by a fresh one, so no later \<open>Stop\<close>, however often it is called,
  can stop that recorder's pump. A \<open>Stop\<close> after \<open>Start\<close> does close the channel.\<close>

theorem recorder_stop_before_start:
  "stopCh ((RecStop ^^ n) (RecStart (RecStop (new_recorder cs bl)))) = Some False
   \<and> stopCh ((RecStop ^^ Suc n) (RecStart (new_recorder cs bl))) = Some True"
proof -
  have 1: "stopped ((RecStop ^^ n) p) \<and> stopCh ((RecStop ^^ n) p) = Some b"
    if "stopped p" "stopCh p = Some b" for p b
    using that by (induction n) (auto simp: RecStop_def Let_def)
  have p: "stopped (RecStart (RecStop (new_recorder cs bl)))"
      "stopCh (RecStart (RecStop (new_recorder cs bl))) = Some False"
    by (simp_all add: RecStart_def RecStop_def new_recorder_def newChunkChan_def Let_def)
  have q: "stopped (RecStop (RecStart (new_recorder cs bl)))"
      "stopCh (RecStop (RecStart (new_recorder cs bl))) = Some True"
    by (simp_all add: RecStart_def RecStop_def new_recorder_def newChunkChan_def Let_def)
  show ?thesis using 1 [OF p] 1 [OF q] by (simp add: funpow_Suc_right del: funpow.simps)
qed

section \<open>A concrete run\<close>

text \<open>
  Chunks of two bytes and room for one: the first chunk is sent and taken, the second is
  sent, the third dropped, one byte stays accumulated.
\<close>

definition demo_actions :: "action list" where
  "demo_actions =
    [ActChunks, ActStart, ActSelect, ActRead [1, 2] None, ActEmit, ActTake, ActEmit, ActSelect,
     ActRead [3] None, ActEmit, ActSelect, ActRead [4, 5] None, ActEmit, ActEmit, ActSelect,
     ActRead [6, 7] None, ActEmit, ActStop]"

definition demo_sys :: rec_sys where
  "demo_sys = the (rec_run demo_actions (init_sys 2 1))"

lemma demo_run: "rec_run demo_actions (init_sys 2 1) = Some demo_sys"
  by code_simp

lemma demo_reach: "rec_reach 2 1 demo_sys"
  by (rule rec_run_reach [OF demo_run rec_init])

lemma demo_values:
  "emitted demo_sys = [(True, [1, 2]), (True, [3, 4]), (False, [5, 6])]"
  "accum demo_sys = [7]" "pc demo_sys = PEmit None" "stopCh (rcd demo_sys) = Some True"
  "chunkCh (rcd demo_sys) = Some \<lparr>cap = 1, buf = [[3, 4]], closed = False\<rparr>"
  by code_simp+

theorem recorder_framing_witness:
  "concat (map snd (emitted demo_sys)) @ accum demo_sys = src_bytes demo_sys
   \<and> length (emitted demo_sys) = 3"
  using recorder_framing [OF demo_reach] by (simp add: demo_values)

theorem recorder_delivery_witness:
  "taken demo_sys @ [[3, 4]] = [[1, 2], [3, 4]]"
  using recorder_delivery [OF demo_reach demo_values(5)] by (simp add: demo_values)

theorem recorder_counters_witness:
  "chunksSent (rcd demo_sys) = 2 \<and> dropped (rcd demo_sys) = 1"
  using recorder_counters [OF demo_reach] by (simp add: demo_values)

theorem recorder_stop_prompt_witness:
  "\<exists>as t. length as \<le> 3 \<and> set as \<subseteq> {ActEmit, ActSelect} \<and> rec_run as demo_sys = Some t
    \<and> pc t = PDone \<and> RecDone (rcd t) = Some True"
  by (rule recorder_stop_prompt [OF demo_reach]) (simp_all add: demo_values)

end
