(* ===== verification/Server.thy ===== *)
theory Server imports Bufio Wav Recorder Connector begin

text \<open>
  \<open>internal/server\<close>: the HTTP server of the shim. This theory has its data and its pure parts: the
  health state and \<open>/healthz\<close>, the check of the requested URI, and the chunk sources a stream can
  read from (the live recorder and the synthesized static source, with the common interface as a
  locale). The streams themselves are in \<open>StreamModel\<close>.
\<close>

section \<open>Replies\<close>

record http_reply =
  reply_code :: nat
  reply_type :: string
  reply_body :: string

definition healthError :: "string \<Rightarrow> member list" where
  "healthError e = [(''error'', json_string e)]"

text \<open>\<open>json.NewEncoder(w).Encode\<close> appends a newline.\<close>

definition error_reply :: "nat \<Rightarrow> string \<Rightarrow> http_reply" where
  "error_reply n e =
    \<lparr>reply_code = n, reply_type = ''application/json'', reply_body = json_object (healthError e) @ [CHR 0x0A]\<rparr>"

section \<open>Health\<close>

record server =
  unhealthyReason :: string
  streamID :: int
  streamCancel :: "nat option"
  delivered :: u64
  active :: int

definition new_server :: server where
  "new_server = \<lparr>unhealthyReason = [], streamID = 0, streamCancel = None, delivered = 0, active = 0\<rparr>"

definition SetUnhealthy :: "string \<Rightarrow> server \<Rightarrow> server" where
  "SetUnhealthy reason s = s\<lparr>unhealthyReason := reason\<rparr>"

definition DeliveredBytes :: "server \<Rightarrow> u64" where "DeliveredBytes s = delivered s"
definition ActiveStreams :: "server \<Rightarrow> int" where "ActiveStreams s = active s"

definition handleHealthz :: "server \<Rightarrow> http_reply" where
  "handleHealthz s =
    (let reason = unhealthyReason s
     in if reason \<noteq> [] then error_reply 503 reason
        else \<lparr>reply_code = 200, reply_type = ''text/plain'', reply_body = ''ok'' @ [CHR 0x0A]\<rparr>)"

section \<open>The requested URI\<close>

definition alnum :: "char \<Rightarrow> bool" where
  "alnum c \<longleftrightarrow> 65 \<le> code c \<and> code c \<le> 90 \<or> 97 \<le> code c \<and> code c \<le> 122 \<or> 48 \<le> code c \<and> code c \<le> 57"

text \<open>The alternatives of the pattern, each tried as a prefix; the rest up to the end of the text
  is one or more letters and digits.\<close>

definition uri_kinds :: "string list" where
  "uri_kinds = [''track'', ''album'', ''playlist'', ''episode'']"

definition validURI :: "string \<Rightarrow> bool" where
  "validURI uri \<longleftrightarrow>
     list_ex (\<lambda>k. let p = ''spotify:'' @ k @ '':'' in
        HasPrefix uri p \<and> TrimPrefix uri p \<noteq> [] \<and> list_all alnum (TrimPrefix uri p)) uri_kinds"

lemma validURI_iff:
  "validURI uri \<longleftrightarrow>
    (\<exists>k id. k \<in> set uri_kinds \<and> id \<noteq> [] \<and> list_all alnum id \<and> uri = ''spotify:'' @ k @ CHR '':'' # id)"
proof
  assume "validURI uri"
  then obtain k where k: "k \<in> set uri_kinds" "HasPrefix uri (''spotify:'' @ k @ '':'')"
      "TrimPrefix uri (''spotify:'' @ k @ '':'') \<noteq> []" "list_all alnum (TrimPrefix uri (''spotify:'' @ k @ '':''))"
    by (auto simp: validURI_def list_ex_iff Let_def)
  from k(2) obtain id where id: "uri = (''spotify:'' @ k @ '':'') @ id"
    by (auto simp: HasPrefix_def prefix_def)
  then have "TrimPrefix uri (''spotify:'' @ k @ '':'') = id" by (simp only: TrimPrefix_append)
  with k id show "\<exists>k id. k \<in> set uri_kinds \<and> id \<noteq> [] \<and> list_all alnum id \<and> uri = ''spotify:'' @ k @ CHR '':'' # id"
    by (intro exI [of _ k] exI [of _ id]) simp
next
  assume "\<exists>k id. k \<in> set uri_kinds \<and> id \<noteq> [] \<and> list_all alnum id \<and> uri = ''spotify:'' @ k @ CHR '':'' # id"
  then obtain k id where k: "k \<in> set uri_kinds" "id \<noteq> []" "list_all alnum id"
      and u: "uri = (''spotify:'' @ k @ '':'') @ id" by auto
  have "HasPrefix uri (''spotify:'' @ k @ '':'')" "TrimPrefix uri (''spotify:'' @ k @ '':'') = id"
    unfolding u by (rule HasPrefix_append, rule TrimPrefix_append)
  then show "validURI uri" using k by (auto simp: validURI_def list_ex_iff Let_def)
qed

text \<open>The characters of a valid URI need no escape in JSON.\<close>

definition json_plain :: "char \<Rightarrow> bool" where
  "json_plain c \<longleftrightarrow> code c < 128 \<and> esc_byte c = [c]"

lemma alnum_plain: "alnum c \<Longrightarrow> json_plain c"
  by (auto simp: alnum_def json_plain_def esc_byte_def)

lemma json_plain_id:
  "list_all json_plain s \<Longrightarrow> json_body s = s \<and> coerce_utf8 s = s"
  by (induction s) (auto simp: json_body_simps coerce_utf8_simps json_plain_def)

lemma validURI_plain: "validURI uri \<Longrightarrow> list_all json_plain uri"
proof -
  assume "validURI uri"
  then obtain k id where k: "k \<in> set uri_kinds" "list_all alnum id" "uri = ''spotify:'' @ k @ CHR '':'' # id"
    by (auto simp: validURI_iff)
  have "list_all json_plain (''spotify:'' @ k @ '':'')" if "k \<in> set uri_kinds" for k
    using that unfolding uri_kinds_def by (auto; code_simp)
  moreover have "list_all json_plain id" using k(2) alnum_plain by (auto simp: list_all_iff)
  ultimately show ?thesis using k(1,3) by simp
qed

section \<open>Reading an error reply\<close>

lemma error_head:
  "foldl cap_step cap_init ''{\"error\":\"'' =
    \<lparr>js = (InString, [ObjectValue]), jkey = json_string ''error'', jval = ''\"'', jmems = []\<rparr>"
  by code_simp

lemma error_tail:
  "foldl cap_step \<lparr>js = (EndValue, [ObjectValue]), jkey = k, jval = v, jmems = m\<rparr> (''}'' @ [CHR 0x0A]) =
    \<lparr>js = (EndTop, []), jkey = [], jval = [], jmems = m @ [(k, v)]\<rparr>"
  by code_simp

lemma error_members:
  "json_members (reply_body (error_reply n e)) = Some [(json_string ''error'', json_string e)]"
proof -
  let ?b = "\<lparr>js = (InString, [ObjectValue]), jkey = json_string ''error'', jval = ''\"'', jmems = []\<rparr>"
  let ?d = "?b\<lparr>js := (EndValue, [ObjectValue]), jval := jval ?b @ json_body e @ [CHR ''\"'']\<rparr>"
  have key: "json_string ''error'' = ''\"error\"''" by code_simp
  have "reply_body (error_reply n e) = ''{\"error\":\"'' @ (json_body e @ CHR ''\"'' # (''}'' @ [CHR 0x0A]))"
    by (simp add: error_reply_def healthError_def json_object_def json_member_def key) (simp add: json_string_def)
  then have "foldl cap_step cap_init (reply_body (error_reply n e))
      = foldl cap_step ?b (json_body e @ CHR ''\"'' # (''}'' @ [CHR 0x0A]))"
    using foldl_from [OF error_head] by metis
  also have "\<dots> = foldl cap_step ?d (''}'' @ [CHR 0x0A])"
    by (rule cap_scan_string) simp
  finally have f: "foldl cap_step cap_init (reply_body (error_reply n e)) = foldl cap_step ?d (''}'' @ [CHR 0x0A])" .
  show ?thesis using json_members_scan [OF f] error_tail by (simp add: json_string_def)
qed

section \<open>Chunk sources\<close>

text \<open>
  The interface \<open>ChunkSource\<close>: a channel of chunks and the sample rate of what it carries. Asking
  for the channel may create it; the laws are that there always is one, that asking again gives
  the same channel, and that asking changes neither rate nor channel.
\<close>

locale chunk_source =
  fixes Chunks :: "'s \<Rightarrow> chunk chan option \<times> 's"
    and Rate :: "'s \<Rightarrow> u32"
  assumes there: "fst (Chunks s) \<noteq> None"
    and again: "fst (Chunks (snd (Chunks s))) = fst (Chunks s)"
    and rate: "Rate (snd (Chunks s)) = Rate s"
begin

text \<open>However many consumers attach one after the other, they all read the same channel at the
  same rate.\<close>

lemma same_channel:
  "fst (Chunks (((snd \<circ> Chunks) ^^ n) s)) = fst (Chunks s) \<and> Rate (((snd \<circ> Chunks) ^^ n) s) = Rate s"
  by (induction n arbitrary: s) (simp_all add: again rate funpow_Suc_right del: funpow.simps)

end

text \<open>The static source. \<open>gen_live\<close> says whether its generator goroutine still runs.\<close>

record staticSource =
  sch :: "chunk chan"
  stop_closed :: bool
  srate :: u32
  schunk :: chunk
  gen_live :: bool

fun prefill :: "nat \<Rightarrow> chunk \<Rightarrow> chunk chan \<Rightarrow> chunk chan" where
  "prefill 0 c ch = ch"
| "prefill (Suc n) c ch = prefill n c (case try_send c ch of Some ch' \<Rightarrow> ch' | None \<Rightarrow> ch)"

definition NewStaticSource :: "(nat \<Rightarrow> u16) \<Rightarrow> u32 \<Rightarrow> staticSource" where
  "NewStaticSource sample sampleRate =
    (let c = sineChunk sample
     in \<lparr>sch = prefill 4 c (make_chan 16), stop_closed = False, srate = sampleRate, schunk = c, gen_live = True\<rparr>)"

text \<open>The generator's \<open>select\<close>: it may send whenever there is room, and end once stopped.\<close>

definition gen_send :: "staticSource \<Rightarrow> staticSource option" where
  "gen_send x =
    (if \<not> gen_live x then None
     else case try_send (schunk x) (sch x) of None \<Rightarrow> None | Some ch \<Rightarrow> Some (x\<lparr>sch := ch\<rparr>))"

definition gen_end :: "staticSource \<Rightarrow> staticSource option" where
  "gen_end x = (if gen_live x \<and> stop_closed x then Some (x\<lparr>gen_live := False\<rparr>) else None)"

definition StaticChunks :: "staticSource \<Rightarrow> chunk chan option \<times> staticSource" where
  "StaticChunks x = (Some (sch x), x)"

definition StaticSrcRate :: "staticSource \<Rightarrow> u32" where
  "StaticSrcRate x = srate x"

definition StaticClose :: "staticSource \<Rightarrow> staticSource" where
  "StaticClose x = x\<lparr>stop_closed := True\<rparr>"

text \<open>What a stream may be given: the current recorder or a static source of its own. The
  operations a source lacks (\<open>Flush\<close> for the static source, \<open>Close\<close> for the recorder) do
  nothing, as the type switches of \<open>handleStream\<close> have it.\<close>

datatype source = SrcRec PulseRecorder | SrcStatic staticSource

fun SrcChunks :: "source \<Rightarrow> chunk chan option \<times> source" where
  "SrcChunks (SrcRec p) = (let (ch, q) = RecChunks p in (ch, SrcRec q))"
| "SrcChunks (SrcStatic x) = (let (ch, y) = StaticChunks x in (ch, SrcStatic y))"

fun SrcSampleRate :: "source \<Rightarrow> u32" where
  "SrcSampleRate (SrcRec p) = RecSampleRate p"
| "SrcSampleRate (SrcStatic x) = StaticSrcRate x"

fun flushStalePreFill :: "source \<Rightarrow> source" where
  "flushStalePreFill (SrcRec p) = SrcRec (RecFlush p)"
| "flushStalePreFill (SrcStatic x) = SrcStatic x"

fun SrcClose :: "source \<Rightarrow> source" where
  "SrcClose (SrcRec p) = SrcRec p"
| "SrcClose (SrcStatic x) = SrcStatic (StaticClose x)"

interpretation recorder_source: chunk_source RecChunks RecSampleRate
  by unfold_locales (auto simp: recorder_op_defs RecSampleRate_def split: option.splits)

interpretation static_source: chunk_source StaticChunks StaticSrcRate
  by unfold_locales (simp_all add: StaticChunks_def StaticSrcRate_def)

interpretation any_source: chunk_source SrcChunks SrcSampleRate
proof
  fix x
  show "fst (SrcChunks x) \<noteq> None"
    using recorder_source.there static_source.there by (cases x) (simp_all add: split_beta)
  show "fst (SrcChunks (snd (SrcChunks x))) = fst (SrcChunks x)"
    using recorder_source.again static_source.again by (cases x) (simp_all add: split_beta)
  show "SrcSampleRate (snd (SrcChunks x)) = SrcSampleRate x"
    using recorder_source.rate static_source.rate by (cases x) (simp_all add: split_beta)
qed

lemma prefill_buf:
  "n + length (buf ch) \<le> cap ch \<Longrightarrow> prefill n c ch = ch\<lparr>buf := buf ch @ replicate n c\<rparr>"
  by (induction n arbitrary: ch) (simp_all add: try_send_def replicate_append_same [symmetric])

lemma NewStaticSource_chan: "sch (NewStaticSource f r) = \<lparr>cap = 16, buf = replicate 4 (sineChunk f), closed = False\<rparr>"
  by (simp add: NewStaticSource_def Let_def prefill_buf make_chan_def)

section \<open>Properties\<close>

text \<open>\<open>/healthz\<close> answers 200 exactly when the last report was empty; otherwise it answers 503
  with one JSON object whose only member \<open>error\<close> reads back as the last reported reason,
  whatever text it is, and earlier reports leave no trace.\<close>

theorem healthz_reports:
  "(let s = fold SetUnhealthy (rs @ [r]) s0; reply = handleHealthz s
    in reply_code reply = (if r = [] then 200 else 503)
     \<and> (if r = [] then reply_body reply = ''ok'' @ [CHR 0x0A]
        else json_members (reply_body reply) = Some [(json_string ''error'', json_string r)]
           \<and> unmarshal_string (json_string r) = Some (coerce_utf8 r)))"
proof -
  have u: "unhealthyReason (SetUnhealthy r s) = r" for r s by (simp add: SetUnhealthy_def)
  have "reply_code (error_reply 503 r) = 503" by (simp add: error_reply_def)
  then show ?thesis
    by (simp add: Let_def handleHealthz_def u error_members unmarshal_json_string)
qed



end
