(* ===== verification/MockPage.thy ===== *)
theory MockPage imports Control Server begin

text \<open>
  The HTTP side of the mock Teddycloud (\<open>cmd/mock-teddycloud/main.go\<close>): the routes of \<open>main\<close>, the
  control page and its handler, and the query of \<open>/api/event\<close> as \<open>net/url\<close> reads it. An independent
  reader of HTML finds the requests the page's forms make.
\<close>

section \<open>The control page\<close>

definition indexHTML :: string where
  "indexHTML = concat (map (\<lambda>l. l @ [CHR 0x0A])
    [''<!DOCTYPE html>'',
     ''<html>'',
     ''<head>'',
     ''<meta charset=\"utf-8\">'',
     ''<title>Mock Teddycloud</title>'',
     ''<style>'',
     ''body { font-family: sans-serif; margin: 2rem; }'',
     ''button { display: block; margin: 0.5rem 0; font-size: 1rem; padding: 0.6rem 1rem; }'',
     ''</style>'',
     ''</head>'',
     ''<body>'',
     ''<h1>Mock Teddycloud Control</h1>'',
     ''<p>Click a button to emit the corresponding SSE event.</p>'',
     ''<p>Controls: place/lift, and tap the side of the box to skip. The ears are the'',
     ''box's own volume control and must not change the track.</p>'',
     ''<form method=\"post\" action=\"/api/event?action=figurine-placed\"><button type=\"submit\">Place figurine</button></form>'',
     ''<form method=\"post\" action=\"/api/event?action=figurine-lifted\"><button type=\"submit\">Lift figurine</button></form>'',
     ''<form method=\"post\" action=\"/api/event?action=knock-forward\"><button type=\"submit\">Skip next (tap right side)</button></form>'',
     ''<form method=\"post\" action=\"/api/event?action=knock-backward\"><button type=\"submit\">Skip back (tap left side)</button></form>'',
     ''<form method=\"post\" action=\"/api/event?action=ear-big\"><button type=\"submit\">Ear pinch up (box volume)</button></form>'',
     ''<form method=\"post\" action=\"/api/event?action=ear-small\"><button type=\"submit\">Ear pinch down (box volume)</button></form>'',
     ''</body>'',
     ''</html>''])"

definition handleIndex :: "string \<Rightarrow> http_reply" where
  "handleIndex path =
    (if path \<noteq> ''/''
     then \<lparr>reply_code = 404, reply_type = ''text/plain; charset=utf-8'', reply_body = ''404 page not found'' @ [CHR 0x0A]\<rparr>
     else \<lparr>reply_code = 200, reply_type = ''text/html; charset=utf-8'', reply_body = indexHTML\<rparr>)"

section \<open>Queries\<close>

fun hex_value :: "char \<Rightarrow> nat option" where
  "hex_value c =
    (let n = (of_char c :: nat)
     in if 48 \<le> n \<and> n \<le> 57 then Some (n - 48)
        else if 97 \<le> n \<and> n \<le> 102 then Some (n - 87)
        else if 65 \<le> n \<and> n \<le> 70 then Some (n - 55) else None)"

text \<open>\<open>url.QueryUnescape\<close>.\<close>

fun QueryUnescape :: "string \<Rightarrow> string option" where
  "QueryUnescape [] = Some []"
| "QueryUnescape (c # s) =
    (if c = CHR ''%'' then
       (case s of
          a # b # t \<Rightarrow>
            (case (hex_value a, hex_value b) of
               (Some x, Some y) \<Rightarrow> map_option (Cons (char_of (16 * x + y))) (QueryUnescape t)
             | _ \<Rightarrow> None)
        | _ \<Rightarrow> None)
     else map_option (Cons (if c = CHR ''+'' then CHR '' '' else c)) (QueryUnescape s))"

text \<open>One pair of a query; a malformed one is skipped.\<close>

definition query_pair :: "string \<Rightarrow> (string \<times> string) option" where
  "query_pair s =
    (if s = [] \<or> CHR '';'' \<in> set s then None
     else let k = takeWhile (\<lambda>c. c \<noteq> CHR ''='') s
          in (case (QueryUnescape k, QueryUnescape (drop (Suc (length k)) s)) of
                (Some x, Some y) \<Rightarrow> Some (x, y) | _ \<Rightarrow> None))"

text \<open>\<open>r.URL.Query().Get(key)\<close>: the first value of the key, empty when there is none.\<close>

definition Query_Get :: "string \<Rightarrow> string \<Rightarrow> string" where
  "Query_Get key raw =
    (case map_of (List.map_filter query_pair (SplitOn CHR ''&'' raw)) key of None \<Rightarrow> [] | Some v \<Rightarrow> v)"

section \<open>The routes\<close>

definition eventPath :: string where "eventPath = ''/api/event''"
definition ssePath :: string where "ssePath = ''/api/sse''"

text \<open>What answers a request: a reply, or the stream of \<open>handleSSE\<close>.\<close>

datatype mock_answer = Reply nat | Page http_reply | EventStream

text \<open>The multiplexer of \<open>main\<close>: the two exact paths, and \<open>/\<close> for everything else.\<close>

definition mock_serve :: "string \<Rightarrow> hub \<Rightarrow> mock_answer \<times> hub" where
  "mock_serve target h =
    (let path = takeWhile (\<lambda>c. c \<noteq> CHR ''?'') target; raw = drop (Suc (length path)) target
     in if path = eventPath then (case handleEvent (Query_Get ''action'' raw) h of (n, h') \<Rightarrow> (Reply n, h'))
        else if path = ssePath then (EventStream, h)
        else (Page (handleIndex path), h))"

section \<open>What the page asks for\<close>

text \<open>The values of the \<open>action\<close> attributes, in order.\<close>

fun form_targets :: "string \<Rightarrow> string list" where
  "form_targets [] = []"
| "form_targets (c # s) =
    (if c \<noteq> CHR ''a'' then form_targets s
     else if HasPrefix s ''ction=\"'' then takeWhile (\<lambda>x. x \<noteq> CHR 0x22) (drop 7 s) # form_targets s
     else form_targets s)"

definition button :: "string \<Rightarrow> string" where
  "button a = eventPath @ ''?action='' @ a"

lemma page_targets:
  "form_targets indexHTML =
    map button [''figurine-placed'', ''figurine-lifted'', ''knock-forward'', ''knock-backward'', ''ear-big'', ''ear-small'']"
  by code_simp

lemma button_served:
  assumes "a \<noteq> []" and "QueryUnescape a = Some a" and "set a \<inter> {CHR ''?'', CHR ''&'', CHR '';'', CHR ''=''} = {}"
  shows "mock_serve (button a) h = (Reply 204, trigger a h)"
proof -
  have "takeWhile (\<lambda>c. c \<noteq> CHR ''?'') (button a) = eventPath"
    by (simp add: button_def eventPath_def)
  moreover have "drop (Suc (length eventPath)) (button a) = ''action='' @ a"
    by (simp add: button_def eventPath_def)
  moreover have "SplitOn CHR ''&'' (''action='' @ a) = [''action='' @ a]"
    using assms(3) by (intro SplitOn_no_sep) auto
  moreover have "query_pair (''action='' @ a) = Some (''action'', a)"
    using assms(2,3) by (auto simp: query_pair_def)
  ultimately show ?thesis
    using assms(1) by (simp add: mock_serve_def Let_def Query_Get_def List.map_filter_simps handleEvent_def)
qed

lemma actions_plain:
  "list_all (\<lambda>a. a \<noteq> [] \<and> QueryUnescape a = Some a \<and> set a \<inter> {CHR ''?'', CHR ''&'', CHR '';'', CHR ''=''} = {})
    [''figurine-placed'', ''figurine-lifted'', ''knock-forward'', ''knock-backward'', ''ear-big'', ''ear-small'']"
  by code_simp

section \<open>Property\<close>

text \<open>The control page controls: it is served at \<open>/\<close> and nowhere else, and each of its six buttons,
  clicked in any state of the hub, is answered 204 and triggers its own action; together they
  command play, pause, skip next, skip previous, and nothing for the two ear buttons.\<close>

theorem control_page:
  "mock_serve ''/'' h = (Page \<lparr>reply_code = 200, reply_type = ''text/html; charset=utf-8'', reply_body = indexHTML\<rparr>, h)
   \<and> (let actions = [''figurine-placed'', ''figurine-lifted'', ''knock-forward'', ''knock-backward'', ''ear-big'', ''ear-small'']
      in map (\<lambda>t. mock_serve t h) (form_targets indexHTML) = map (\<lambda>a. (Reply 204, trigger a h)) actions
         \<and> map (soloist_effect \<circ> InAction) actions =
             [[(''play'', Some [])], [(''pause'', None)], [(''skip_next'', None)], [(''skip_prev'', None)], [], []])
   \<and> (reply_code (handleIndex path) = 200 \<longleftrightarrow> path = ''/'')"
proof -
  have "map (\<lambda>a. mock_serve (button a) h) as = map (\<lambda>a. (Reply 204, trigger a h)) as"
    if "list_all (\<lambda>a. a \<noteq> [] \<and> QueryUnescape a = Some a \<and> set a \<inter> {CHR ''?'', CHR ''&'', CHR '';'', CHR ''=''} = {}) as" for as
    using that by (auto simp: list_all_iff button_served)
  from this [OF actions_plain] show ?thesis
    unfolding page_targets map_map
    by (simp add: mock_serve_def eventPath_def ssePath_def handleIndex_def comp_def)
qed

end
