(* ===== verification/StreamModel.thy ===== *)
theory StreamModel imports Server begin

text \<open>
  \<open>handleStream\<close> and \<open>streamChunks\<close> of \<open>internal/server/stream.go\<close>, as a system of concurrent
  requests. Each request is a handler with a program counter; one transition is one atomic
  action of a handler (a critical section, a write, one turn of the \<open>select\<close>) or of its
  environment (a request arrives, a client leaves, the recorder emits a chunk, the recorder slot
  changes, a component reports its health). History variables record the chunks each channel
  accepted, those each handler received with their positions, and the play commands.
\<close>

section \<open>State\<close>

definition streamFlushThreshold :: nat where "streamFlushThreshold = 131072"

datatype hpc = HStart | HRegister | HFlush | HPlay | HHeader | HLoop | HLeave | HUnregister | HClose | HDone

record handler =
  hpc :: hpc
  huri :: string
  hsrc :: nat
  myID :: int
  ctx_done :: bool
  bw :: bufw
  hreply :: "http_reply option"
  got :: "(nat \<times> chunk) list"
  counted :: nat
  since :: nat

record outlet =
  src_of :: source
  fed :: "chunk list"

record stream_sys =
  srv :: server
  handlers :: "handler list"
  outlets :: "outlet list"
  slot :: "nat option"
  plays :: "(nat \<times> string) list"

text \<open>The configuration: with a static stream, its sample rate and the values of the tone.\<close>

record stream_conf =
  static_rate :: "u32 option"
  tone :: "nat \<Rightarrow> u16"

definition stream_init :: stream_sys where
  "stream_init = \<lparr>srv = new_server, handlers = [], outlets = [], slot = None, plays = []\<rparr>"

section \<open>Sources of the system\<close>

fun chan_of :: "source \<Rightarrow> chunk chan option" where
  "chan_of (SrcRec p) = chunkCh p"
| "chan_of (SrcStatic x) = Some (sch x)"

fun with_chan :: "chunk chan \<Rightarrow> source \<Rightarrow> source" where
  "with_chan ch (SrcRec p) = SrcRec (p\<lparr>chunkCh := Some ch\<rparr>)"
| "with_chan ch (SrcStatic x) = SrcStatic (x\<lparr>sch := ch\<rparr>)"

definition waiting :: "source \<Rightarrow> chunk list" where
  "waiting x = (case chan_of x of None \<Rightarrow> [] | Some ch \<Rightarrow> buf ch)"

text \<open>The position, in the order of acceptance, of the next chunk to be received.\<close>

definition head_pos :: "outlet \<Rightarrow> nat" where
  "head_pos x = length (fed x) - length (waiting (src_of x))"

definition set_src :: "nat \<Rightarrow> source \<Rightarrow> stream_sys \<Rightarrow> stream_sys" where
  "set_src k x s = s\<lparr>outlets := (outlets s)[k := (outlets s ! k)\<lparr>src_of := x\<rparr>]\<rparr>"

text \<open>\<open>srcFunc\<close> of the shim: a static source of its own for each request, or the recorder slot.\<close>

definition srcFunc :: "stream_conf \<Rightarrow> stream_sys \<Rightarrow> nat option \<times> stream_sys" where
  "srcFunc c s =
    (case static_rate c of
       Some r \<Rightarrow> (Some (length (outlets s)),
          s\<lparr>outlets := outlets s @ [\<lparr>src_of = SrcStatic (NewStaticSource (tone c) r), fed = replicate 4 (sineChunk (tone c))\<rparr>]\<rparr>)
     | None \<Rightarrow> (slot s, s))"

section \<open>The handler\<close>

definition set_h :: "nat \<Rightarrow> handler \<Rightarrow> stream_sys \<Rightarrow> stream_sys" where
  "set_h i h s = s\<lparr>handlers := (handlers s)[i := h]\<rparr>"

definition new_handler :: "string \<Rightarrow> nat option \<Rightarrow> handler" where
  "new_handler uri r =
    \<lparr>hpc = HStart, huri = uri, hsrc = 0, myID = 0, ctx_done = False,
     bw = NewWriterSize \<lparr>writes = [], room = r\<rparr> streamFlushThreshold, hreply = None, got = [], counted = 0, since = 0\<rparr>"

definition step_begin :: "stream_conf \<Rightarrow> nat \<Rightarrow> handler \<Rightarrow> stream_sys \<Rightarrow> stream_sys" where
  "step_begin c i h s =
    (if \<not> validURI (huri h) then
       set_h i (h\<lparr>hreply := Some (error_reply 400 ''invalid spotify_uri''), hpc := HDone\<rparr>) s
     else case srcFunc c s of
       (None, t) \<Rightarrow> set_h i (h\<lparr>hreply := Some (error_reply 503 ''pulseaudio_not_ready''), hpc := HDone\<rparr>) t
     | (Some k, t) \<Rightarrow> set_h i (h\<lparr>hsrc := k, hpc := HRegister\<rparr>) t)"

text \<open>The critical section that takes the stream over: the previous owner's context is cancelled.\<close>

definition cancel_owner :: "nat option \<Rightarrow> handler list \<Rightarrow> handler list" where
  "cancel_owner j hs = (case j of None \<Rightarrow> hs | Some j \<Rightarrow> hs[j := (hs ! j)\<lparr>ctx_done := True\<rparr>])"

definition step_register :: "nat \<Rightarrow> handler \<Rightarrow> stream_sys \<Rightarrow> stream_sys" where
  "step_register i h s =
    (let n = streamID (srv s) + 1
     in s\<lparr>handlers := (cancel_owner (streamCancel (srv s)) (handlers s))[i := h\<lparr>myID := n, hpc := HFlush\<rparr>],
          srv := (srv s)\<lparr>streamID := n, streamCancel := Some i\<rparr>\<rparr>)"

definition step_drop_stale :: "nat \<Rightarrow> handler \<Rightarrow> stream_sys \<Rightarrow> stream_sys" where
  "step_drop_stale i h s =
    (let k = hsrc h; t = set_src k (flushStalePreFill (src_of (outlets s ! k))) s
     in set_h i (h\<lparr>since := head_pos (outlets t ! k), hpc := HPlay\<rparr>) t)"

definition step_play :: "nat \<Rightarrow> handler \<Rightarrow> stream_sys \<Rightarrow> stream_sys" where
  "step_play i h s = set_h i (h\<lparr>hpc := HHeader\<rparr>) (s\<lparr>plays := plays s @ [(i, huri h)]\<rparr>)"

definition count_bytes :: "nat \<Rightarrow> stream_sys \<Rightarrow> stream_sys" where
  "count_bytes n s = s\<lparr>srv := (srv s)\<lparr>delivered := delivered (srv s) + word_of_nat n\<rparr>\<rparr>"

definition count_active :: "int \<Rightarrow> stream_sys \<Rightarrow> stream_sys" where
  "count_active d s = s\<lparr>srv := (srv s)\<lparr>active := active (srv s) + d\<rparr>\<rparr>"

text \<open>The header goes out in a write of its own; the batching writer is created after it.\<close>

definition step_header :: "nat \<Rightarrow> handler \<Rightarrow> stream_sys \<Rightarrow> stream_sys" where
  "step_header i h s =
    (let x = src_of (outlets s ! hsrc h);
         header = writeWAVHeader (SrcSampleRate x);
         w = snd (snd (sink_write header (sink_of (bw h))))
     in set_h i (h\<lparr>hreply := Some \<lparr>reply_code = 200, reply_type = ''audio/wav'', reply_body = []\<rparr>,
                   bw := NewWriterSize w streamFlushThreshold, counted := length header, hpc := HLoop\<rparr>)
          (count_active 1 (count_bytes (length header) (set_src (hsrc h) (snd (SrcChunks x)) s))))"

text \<open>One turn of \<open>streamChunks\<close>: the context ended, or a chunk was received, or the channel is
  closed and empty.\<close>

definition step_ctx :: "nat \<Rightarrow> handler \<Rightarrow> stream_sys \<Rightarrow> stream_sys option" where
  "step_ctx i h s =
    (if ctx_done h then Some (set_h i (h\<lparr>bw := bw_flush (bw h), hpc := HLeave\<rparr>) s) else None)"

definition step_chunk :: "nat \<Rightarrow> handler \<Rightarrow> stream_sys \<Rightarrow> stream_sys option" where
  "step_chunk i h s =
    (let k = hsrc h; x = src_of (outlets s ! k)
     in case chan_of x of
          None \<Rightarrow> None
        | Some ch \<Rightarrow>
          (case try_recv ch of
             None \<Rightarrow> (if closed ch then Some (set_h i (h\<lparr>bw := bw_flush (bw h), hpc := HLeave\<rparr>) s) else None)
           | Some (c, ch') \<Rightarrow>
              (case bw_write c (bw h) of
                 (n, b) \<Rightarrow> Some (set_h i (h\<lparr>bw := b, got := got h @ [(head_pos (outlets s ! k), c)], counted := counted h + n\<rparr>)
                             (count_bytes n (set_src k (with_chan ch' x) s))))))"

text \<open>The deferred calls, last first.\<close>

definition step_leave :: "nat \<Rightarrow> handler \<Rightarrow> stream_sys \<Rightarrow> stream_sys" where
  "step_leave i h s = set_h i (h\<lparr>hpc := HUnregister\<rparr>) (count_active (-1) s)"

definition step_unregister :: "nat \<Rightarrow> handler \<Rightarrow> stream_sys \<Rightarrow> stream_sys" where
  "step_unregister i h s =
    set_h i (h\<lparr>hpc := HClose\<rparr>)
      (if streamID (srv s) = myID h then s\<lparr>srv := (srv s)\<lparr>streamCancel := None\<rparr>\<rparr> else s)"

definition step_close :: "nat \<Rightarrow> handler \<Rightarrow> stream_sys \<Rightarrow> stream_sys" where
  "step_close i h s =
    set_h i (h\<lparr>ctx_done := True, hpc := HDone\<rparr>) (set_src (hsrc h) (SrcClose (src_of (outlets s ! hsrc h))) s)"

text \<open>A handler's next step; in the loop the \<open>select\<close> may take either ready case.\<close>

datatype loop_choice = TakeCtx | TakeChunk

definition handleStream_step :: "stream_conf \<Rightarrow> nat \<Rightarrow> loop_choice \<Rightarrow> stream_sys \<Rightarrow> stream_sys option" where
  "handleStream_step c i choice s =
    (if length (handlers s) \<le> i then None
     else let h = handlers s ! i
          in case hpc h of
               HStart \<Rightarrow> Some (step_begin c i h s)
             | HRegister \<Rightarrow> Some (step_register i h s)
             | HFlush \<Rightarrow> Some (step_drop_stale i h s)
             | HPlay \<Rightarrow> Some (step_play i h s)
             | HHeader \<Rightarrow> Some (step_header i h s)
             | HLoop \<Rightarrow> (case choice of TakeCtx \<Rightarrow> step_ctx i h s | TakeChunk \<Rightarrow> step_chunk i h s)
             | HLeave \<Rightarrow> Some (step_leave i h s)
             | HUnregister \<Rightarrow> Some (step_unregister i h s)
             | HClose \<Rightarrow> Some (step_close i h s)
             | HDone \<Rightarrow> None)"

section \<open>The environment\<close>

datatype stream_act =
    Handler nat loop_choice
  | Arrive string "nat option"
  | Disconnect nat
  | Feed nat chunk
  | GenSend nat | GenEnd nat
  | NewRecorder int | NoRecorder
  | Report string

definition feed :: "nat \<Rightarrow> chunk \<Rightarrow> stream_sys \<Rightarrow> stream_sys option" where
  "feed k c s =
    (if length (outlets s) \<le> k then None
     else case src_of (outlets s ! k) of
       SrcStatic x \<Rightarrow> None
     | SrcRec p \<Rightarrow>
        (case chunkCh p of
           None \<Rightarrow> None
         | Some ch \<Rightarrow>
           (case try_send c ch of
              None \<Rightarrow> Some (set_src k (SrcRec (p\<lparr>dropped := dropped p + 1\<rparr>)) s)
            | Some ch' \<Rightarrow>
               Some (s\<lparr>outlets := (outlets s)[k :=
                  \<lparr>src_of = SrcRec (p\<lparr>chunkCh := Some ch', chunksSent := chunksSent p + 1\<rparr>), fed = fed (outlets s ! k) @ [c]\<rparr>]\<rparr>))))"

definition generate :: "nat \<Rightarrow> stream_sys \<Rightarrow> stream_sys option" where
  "generate k s =
    (if length (outlets s) \<le> k then None
     else case src_of (outlets s ! k) of
       SrcRec p \<Rightarrow> None
     | SrcStatic x \<Rightarrow>
        (case gen_send x of
           None \<Rightarrow> None
         | Some y \<Rightarrow> Some (s\<lparr>outlets := (outlets s)[k := \<lparr>src_of = SrcStatic y, fed = fed (outlets s ! k) @ [schunk x]\<rparr>]\<rparr>)))"

definition generator_end :: "nat \<Rightarrow> stream_sys \<Rightarrow> stream_sys option" where
  "generator_end k s =
    (if length (outlets s) \<le> k then None
     else case src_of (outlets s ! k) of
       SrcRec p \<Rightarrow> None
     | SrcStatic x \<Rightarrow> (case gen_end x of None \<Rightarrow> None | Some y \<Rightarrow> Some (set_src k (SrcStatic y) s)))"

definition stream_step :: "stream_conf \<Rightarrow> stream_act \<Rightarrow> stream_sys \<Rightarrow> stream_sys option" where
  "stream_step c a s =
    (case a of
       Handler i choice \<Rightarrow> handleStream_step c i choice s
     | Arrive uri r \<Rightarrow> Some (s\<lparr>handlers := handlers s @ [new_handler uri r]\<rparr>)
     | Disconnect i \<Rightarrow>
        (if i < length (handlers s) then Some (set_h i ((handlers s ! i)\<lparr>ctx_done := True\<rparr>) s) else None)
     | Feed k x \<Rightarrow> feed k x s
     | GenSend k \<Rightarrow> generate k s
     | GenEnd k \<Rightarrow> generator_end k s
     | NewRecorder n \<Rightarrow>
        Some (s\<lparr>outlets := outlets s @ [\<lparr>src_of = SrcRec (RecStart (new_recorder 0 n)), fed = []\<rparr>],
                slot := Some (length (outlets s))\<rparr>)
     | NoRecorder \<Rightarrow> Some (s\<lparr>slot := None\<rparr>)
     | Report r \<Rightarrow> Some (s\<lparr>srv := SetUnhealthy r (srv s)\<rparr>))"

fun stream_run :: "stream_conf \<Rightarrow> stream_act list \<Rightarrow> stream_sys \<Rightarrow> stream_sys option" where
  "stream_run c [] s = Some s"
| "stream_run c (a # as) s = (case stream_step c a s of None \<Rightarrow> None | Some t \<Rightarrow> stream_run c as t)"

inductive stream_reach :: "stream_conf \<Rightarrow> stream_sys \<Rightarrow> bool" for c where
  stream_zero: "stream_reach c stream_init"
| stream_next: "stream_reach c s \<Longrightarrow> stream_step c a s = Some t \<Longrightarrow> stream_reach c t"

lemma stream_run_reach: "stream_run c as s = Some t \<Longrightarrow> stream_reach c s \<Longrightarrow> stream_reach c t"
  by (induction as arbitrary: s) (auto split: option.splits intro: stream_reach.intros)

section \<open>The transitions by shape\<close>

lemma stream_frame [simp]:
  "handlers (set_src k x s) = handlers s" "srv (set_src k x s) = srv s" "slot (set_src k x s) = slot s"
  "plays (set_src k x s) = plays s" "length (outlets (set_src k x s)) = length (outlets s)"
  "handlers (set_h i h s) = (handlers s)[i := h]" "srv (set_h i h s) = srv s" "outlets (set_h i h s) = outlets s"
  "plays (set_h i h s) = plays s" "slot (set_h i h s) = slot s"
  "handlers (count_bytes n s) = handlers s" "outlets (count_bytes n s) = outlets s" "plays (count_bytes n s) = plays s"
  "handlers (count_active d s) = handlers s" "outlets (count_active d s) = outlets s" "plays (count_active d s) = plays s"
  "srv (count_bytes n s) = (srv s)\<lparr>delivered := delivered (srv s) + word_of_nat n\<rparr>"
  "srv (count_active d s) = (srv s)\<lparr>active := active (srv s) + d\<rparr>"
  by (simp_all add: set_src_def set_h_def count_bytes_def count_active_def)

lemma srcFunc_frame:
  "srcFunc c s = (k, t) \<Longrightarrow> handlers t = handlers s \<and> srv t = srv s \<and> plays t = plays s
     \<and> (\<exists>xs. outlets t = outlets s @ xs)"
  by (auto simp: srcFunc_def split: option.splits)

text \<open>A transition changes one handler, and possibly the outlets and the counters; or it appends a
  handler; or it leaves the handlers alone.\<close>

lemma stream_step_cases:
  assumes "stream_step c a s = Some t"
  obtains (reject) i h r rep where "a = Handler i r" "i < length (handlers s)" "h = handlers s ! i" "hpc h = HStart"
      "t = set_h i (h\<lparr>hreply := Some rep, hpc := HDone\<rparr>) s"
      "rep = (if validURI (huri h) then error_reply 503 ''pulseaudio_not_ready'' else error_reply 400 ''invalid spotify_uri'')"
      "\<not> validURI (huri h) \<or> static_rate c = None \<and> slot s = None"
  | (accept) i h r k u where "a = Handler i r" "i < length (handlers s)" "h = handlers s ! i" "hpc h = HStart"
      "validURI (huri h)" "srcFunc c s = (Some k, u)" "t = set_h i (h\<lparr>hsrc := k, hpc := HRegister\<rparr>) u"
      "handlers u = handlers s" "srv u = srv s" "plays u = plays s"
  | (register) i h r where "a = Handler i r" "i < length (handlers s)" "h = handlers s ! i" "hpc h = HRegister" "t = step_register i h s"
  | (drop_stale) i h r where "a = Handler i r" "i < length (handlers s)" "h = handlers s ! i" "hpc h = HFlush" "t = step_drop_stale i h s"
  | (play) i h r where "a = Handler i r" "i < length (handlers s)" "h = handlers s ! i" "hpc h = HPlay" "t = step_play i h s"
  | (header) i h r where "a = Handler i r" "i < length (handlers s)" "h = handlers s ! i" "hpc h = HHeader" "t = step_header i h s"
  | (finish) i h r where "a = Handler i r" "i < length (handlers s)" "h = handlers s ! i" "hpc h = HLoop"
      "t = set_h i (h\<lparr>bw := bw_flush (bw h), hpc := HLeave\<rparr>) s"
  | (chunk) i h r ch x ch' n b where "a = Handler i r" "i < length (handlers s)" "h = handlers s ! i" "hpc h = HLoop"
      "chan_of (src_of (outlets s ! hsrc h)) = Some ch" "try_recv ch = Some (x, ch')" "bw_write x (bw h) = (n, b)"
      "t = set_h i (h\<lparr>bw := b, got := got h @ [(head_pos (outlets s ! hsrc h), x)], counted := counted h + n\<rparr>)
             (count_bytes n (set_src (hsrc h) (with_chan ch' (src_of (outlets s ! hsrc h))) s))"
  | (leave) i h r where "a = Handler i r" "i < length (handlers s)" "h = handlers s ! i" "hpc h = HLeave" "t = step_leave i h s"
  | (unregister) i h r where "a = Handler i r" "i < length (handlers s)" "h = handlers s ! i" "hpc h = HUnregister" "t = step_unregister i h s"
  | (close) i h r where "a = Handler i r" "i < length (handlers s)" "h = handlers s ! i" "hpc h = HClose" "t = step_close i h s"
  | (arrive) uri r where "a = Arrive uri r" "t = s\<lparr>handlers := handlers s @ [new_handler uri r]\<rparr>"
  | (disconnect) i where "a = Disconnect i" "i < length (handlers s)" "t = set_h i ((handlers s ! i)\<lparr>ctx_done := True\<rparr>) s"
  | (feed) k x where "a = Feed k x" "feed k x s = Some t"
  | (generate) k where "a = GenSend k" "generate k s = Some t"
  | (generator_end) k where "a = GenEnd k" "generator_end k s = Some t"
  | (recorder) n where "a = NewRecorder n"
      "t = s\<lparr>outlets := outlets s @ [\<lparr>src_of = SrcRec (RecStart (new_recorder 0 n)), fed = []\<rparr>], slot := Some (length (outlets s))\<rparr>"
  | (no_recorder) "a = NoRecorder" "t = s\<lparr>slot := None\<rparr>"
  | (report) r where "a = Report r" "t = s\<lparr>srv := SetUnhealthy r (srv s)\<rparr>"
proof (cases a)
  case (Handler i r)
  then have i: "i < length (handlers s)" and st: "handleStream_step c i r s = Some t"
    using assms by (auto simp: stream_step_def handleStream_step_def split: if_splits)
  define h where "h = handlers s ! i"
  note st' = st [unfolded handleStream_step_def Let_def, folded h_def]
  show ?thesis
  proof (cases "hpc h")
    case HStart
    then have t: "t = step_begin c i h s" using st' i by simp
    show ?thesis
    proof (cases "validURI (huri h) \<and> fst (srcFunc c s) \<noteq> None")
      case True
      then obtain k u where k: "srcFunc c s = (Some k, u)" by (cases "srcFunc c s") auto
      show ?thesis
        using accept [OF Handler i h_def HStart _ k] True k srcFunc_frame [OF k]
        by (simp add: t step_begin_def)
    next
      case False
      then have "\<not> validURI (huri h) \<or> static_rate c = None \<and> slot s = None"
        by (auto simp: srcFunc_def split: option.splits)
      then show ?thesis
        using reject [OF Handler i h_def HStart _ refl] by (auto simp: t step_begin_def srcFunc_def)
    qed
  next
    case HLoop
    note t = st' [unfolded HLoop]
    show ?thesis
    proof (cases r)
      case TakeCtx
      then have "t = set_h i (h\<lparr>bw := bw_flush (bw h), hpc := HLeave\<rparr>) s"
        using t i by (simp add: step_ctx_def split: if_splits)
      then show ?thesis by (rule finish [OF Handler i h_def HLoop])
    next
      case TakeChunk
      then have t: "step_chunk i h s = Some t" using t i by simp
      then obtain ch where ch: "chan_of (src_of (outlets s ! hsrc h)) = Some ch"
        by (auto simp: step_chunk_def Let_def split: option.splits)
      show ?thesis
      proof (cases "try_recv ch")
        case None
        then have "t = set_h i (h\<lparr>bw := bw_flush (bw h), hpc := HLeave\<rparr>) s"
          using t ch by (simp add: step_chunk_def Let_def split: if_splits)
        then show ?thesis by (rule finish [OF Handler i h_def HLoop])
      next
        case (Some p)
        obtain x ch' where p: "p = (x, ch')" by (cases p)
        obtain n b where nb: "bw_write x (bw h) = (n, b)" by (cases "bw_write x (bw h)")
        show ?thesis
          using t ch Some p nb
          by (intro chunk [OF Handler i h_def HLoop ch _ nb, of ch']) (auto simp: step_chunk_def Let_def)
      qed
    qed
  qed (use st' i in \<open>auto intro: register [OF Handler i h_def] drop_stale [OF Handler i h_def] play [OF Handler i h_def]
        header [OF Handler i h_def] leave [OF Handler i h_def] unregister [OF Handler i h_def] close [OF Handler i h_def]\<close>)
qed (use assms in \<open>auto simp: stream_step_def split: if_splits intro: arrive disconnect feed generate generator_end
        recorder no_recorder report\<close>)

lemma environment_frame:
  "feed k x s = Some t \<Longrightarrow> handlers t = handlers s \<and> srv t = srv s \<and> plays t = plays s"
  "generate k s = Some t \<Longrightarrow> handlers t = handlers s \<and> srv t = srv s \<and> plays t = plays s"
  "generator_end k s = Some t \<Longrightarrow> handlers t = handlers s \<and> srv t = srv s \<and> plays t = plays s"
  by (auto simp: feed_def generate_def generator_end_def split: if_splits option.splits source.splits)

section \<open>Ownership of the stream\<close>

definition registered :: "handler \<Rightarrow> bool" where
  "registered h \<longleftrightarrow> hpc h \<in> {HFlush, HPlay, HHeader, HLoop, HLeave, HUnregister}"

text \<open>The owner is the registered handler with the newest identifier; every other registered
  handler has been cancelled.\<close>

definition owning :: "handler list \<Rightarrow> server \<Rightarrow> bool" where
  "owning hs v \<longleftrightarrow>
     (\<forall>i < length hs. registered (hs ! i) \<longrightarrow> myID (hs ! i) \<le> streamID v
        \<and> (streamCancel v \<noteq> Some i \<longrightarrow> ctx_done (hs ! i))
        \<and> (myID (hs ! i) = streamID v \<longleftrightarrow> streamCancel v = Some i))
   \<and> (\<forall>i. streamCancel v = Some i \<longrightarrow> i < length hs \<and> registered (hs ! i))"

lemma owning_update:
  assumes "owning hs v" and "i < length hs" and "registered g = registered (hs ! i)"
    and "registered g \<Longrightarrow> myID g = myID (hs ! i)" and "ctx_done (hs ! i) \<Longrightarrow> ctx_done g"
    and "streamID u = streamID v" and "streamCancel u = streamCancel v"
  shows "owning (hs[i := g]) u"
  using assms by (auto simp: owning_def nth_list_update)

lemma owning_register:
  assumes "owning hs v" and "i < length hs" and "\<not> registered (hs ! i)"
  shows "owning ((cancel_owner (streamCancel v) hs)[i := (hs ! i)\<lparr>myID := streamID v + 1, hpc := HFlush\<rparr>])
           (v\<lparr>streamID := streamID v + 1, streamCancel := Some i\<rparr>)"
proof -
  let ?ks = "cancel_owner (streamCancel v) hs"
  have len: "length ?ks = length hs" by (simp add: cancel_owner_def split: option.split)
  have k: "registered (?ks ! j) = registered (hs ! j) \<and> myID (?ks ! j) = myID (hs ! j)
      \<and> (registered (hs ! j) \<longrightarrow> ctx_done (?ks ! j))" if "j < length hs" for j
    using assms(1) that
    by (auto simp: owning_def cancel_owner_def registered_def nth_list_update split: option.split)
  show ?thesis
    unfolding owning_def
  proof (intro conjI allI impI)
    fix j assume j: "j < length (?ks[i := (hs ! i)\<lparr>myID := streamID v + 1, hpc := HFlush\<rparr>])"
      and r: "registered (?ks[i := (hs ! i)\<lparr>myID := streamID v + 1, hpc := HFlush\<rparr>] ! j)"
    let ?g = "?ks[i := (hs ! i)\<lparr>myID := streamID v + 1, hpc := HFlush\<rparr>] ! j"
    have old: "j \<noteq> i \<Longrightarrow> myID (?ks ! j) \<le> streamID v \<and> ctx_done (?ks ! j)"
      using j r k [of j] assms(1) len by (auto simp: owning_def)
    show "myID ?g \<le> streamID (v\<lparr>streamID := streamID v + 1, streamCancel := Some i\<rparr>)"
      using old len assms(2) by (cases "j = i") auto
    show "ctx_done ?g" if "streamCancel (v\<lparr>streamID := streamID v + 1, streamCancel := Some i\<rparr>) \<noteq> Some j"
      using old that by auto
    show "(myID ?g = streamID (v\<lparr>streamID := streamID v + 1, streamCancel := Some i\<rparr>)) =
        (streamCancel (v\<lparr>streamID := streamID v + 1, streamCancel := Some i\<rparr>) = Some j)"
      using old len assms(2) by (cases "j = i") auto
  next
    fix j assume "streamCancel (v\<lparr>streamID := streamID v + 1, streamCancel := Some i\<rparr>) = Some j"
    then show "j < length (?ks[i := (hs ! i)\<lparr>myID := streamID v + 1, hpc := HFlush\<rparr>])"
        "registered (?ks[i := (hs ! i)\<lparr>myID := streamID v + 1, hpc := HFlush\<rparr>] ! j)"
      using assms(2) len by (auto simp: registered_def)
  qed
qed

lemma owning_unregister:
  assumes "owning hs v" and "i < length hs" and "hpc (hs ! i) = HUnregister"
  shows "owning (hs[i := (hs ! i)\<lparr>hpc := HClose\<rparr>])
    (if streamID v = myID (hs ! i) then v\<lparr>streamCancel := None\<rparr> else v)" (is "owning ?ks ?v")
proof -
  have i: "registered (hs ! i)" using assms(3) by (simp add: registered_def)
  have o: "myID (hs ! i) = streamID v \<longleftrightarrow> streamCancel v = Some i"
    using assms(1,2) i by (simp add: owning_def)
  have c: "streamCancel ?v = (if streamCancel v = Some i then None else streamCancel v)" "streamID ?v = streamID v"
    using o by auto
  have j: "j \<noteq> i \<and> j < length hs \<and> registered (hs ! j) \<and> ?ks ! j = hs ! j"
    if "j < length ?ks" "registered (?ks ! j)" for j
    using that by (cases "j = i") (auto simp: registered_def)
  show ?thesis
    unfolding owning_def
  proof (intro conjI allI impI)
    fix j assume "j < length ?ks" "registered (?ks ! j)"
    note j = j [OF this]
    then have k: "myID (hs ! j) \<le> streamID v" "streamCancel v \<noteq> Some j \<Longrightarrow> ctx_done (hs ! j)"
        "myID (hs ! j) = streamID v \<longleftrightarrow> streamCancel v = Some j"
      using assms(1) by (auto simp: owning_def)
    show "myID (?ks ! j) \<le> streamID ?v" using j k(1) c by simp
    show "ctx_done (?ks ! j)" if "streamCancel ?v \<noteq> Some j" using j k(2) that by (simp add: c split: if_splits)
    show "(myID (?ks ! j) = streamID ?v) = (streamCancel ?v = Some j)" using j k(3) by (simp add: c)
  next
    fix j assume "streamCancel ?v = Some j"
    then have "j \<noteq> i" "streamCancel v = Some j" by (simp_all add: c split: if_splits)
    then show "j < length ?ks" "registered (?ks ! j)" using assms(1) by (auto simp: owning_def)
  qed
qed

lemma owning_append:
  assumes "owning hs v" and "\<not> registered g"
  shows "owning (hs @ [g]) v"
  unfolding owning_def
proof (intro conjI allI impI)
  fix i assume "i < length (hs @ [g])" "registered ((hs @ [g]) ! i)"
  then have i: "i < length hs" "registered (hs ! i)" "(hs @ [g]) ! i = hs ! i"
    using assms(2) by (auto simp: nth_append less_Suc_eq)
  show "myID ((hs @ [g]) ! i) \<le> streamID v" "(myID ((hs @ [g]) ! i) = streamID v) = (streamCancel v = Some i)"
    using i assms(1) by (auto simp: owning_def)
  show "ctx_done ((hs @ [g]) ! i)" if "streamCancel v \<noteq> Some i"
    using i that assms(1) by (auto simp: owning_def)
next
  fix i assume "streamCancel v = Some i"
  then show "i < length (hs @ [g])" "registered ((hs @ [g]) ! i)"
    using assms(1) by (auto simp: owning_def nth_append)
qed

lemma owning_step:
  assumes "owning (handlers s) (srv s)" and "stream_step c a s = Some t"
  shows "owning (handlers t) (srv t)"
  using assms(2)
proof (cases rule: stream_step_cases)
  case (register i h r)
  then show ?thesis
    using owning_register [OF assms(1) register(2)] by (simp add: step_register_def Let_def registered_def)
next
  case (unregister i h r)
  then show ?thesis
    using owning_unregister [OF assms(1) unregister(2)] by (auto simp: step_unregister_def)
next
  case (arrive uri r)
  then show ?thesis using owning_append [OF assms(1)] by (simp add: new_handler_def registered_def)
next
  case (report r)
  then show ?thesis using assms(1) by (simp add: SetUnhealthy_def owning_def)
qed (use assms(1) in \<open>auto simp: step_drop_stale_def step_play_def step_header_def step_leave_def
      step_close_def registered_def Let_def intro!: owning_update dest: environment_frame\<close>)

lemma owning_reach: "stream_reach c s \<Longrightarrow> owning (handlers s) (srv s)"
proof (induction rule: stream_reach.induct)
  case stream_zero
  show ?case by (simp add: owning_def stream_init_def new_server_def)
qed (rule owning_step)

section \<open>The ownership protocol as a specification\<close>

text \<open>What a client of the protocol sees: the stream belongs to whoever took it last, until that
  one gives it back; giving back what one no longer owns changes nothing.\<close>

datatype own_event = Acquire nat | Release nat | Silent

fun own_spec :: "own_event \<Rightarrow> nat option \<Rightarrow> nat option" where
  "own_spec (Acquire i) w = Some i"
| "own_spec (Release i) w = (if w = Some i then None else w)"
| "own_spec Silent w = w"

definition own_event_of :: "stream_act \<Rightarrow> stream_sys \<Rightarrow> own_event" where
  "own_event_of a s =
    (case a of
       Handler i r \<Rightarrow>
         (if hpc (handlers s ! i) = HRegister then Acquire i
          else if hpc (handlers s ! i) = HUnregister then Release i else Silent)
     | _ \<Rightarrow> Silent)"

fun own_events :: "stream_conf \<Rightarrow> stream_act list \<Rightarrow> stream_sys \<Rightarrow> own_event list" where
  "own_events c [] s = []"
| "own_events c (a # as) s =
    own_event_of a s # (case stream_step c a s of None \<Rightarrow> [] | Some t \<Rightarrow> own_events c as t)"

lemma own_step:
  assumes "owning (handlers s) (srv s)" and "stream_step c a s = Some t"
  shows "streamCancel (srv t) = own_spec (own_event_of a s) (streamCancel (srv s))"
  using assms(2)
proof (cases rule: stream_step_cases)
  case (unregister i h r)
  have "registered h" using unregister by (simp add: registered_def)
  then have "myID h = streamID (srv s) \<longleftrightarrow> streamCancel (srv s) = Some i"
    using assms(1) unregister(2,3) by (simp add: owning_def)
  then show ?thesis using unregister by (auto simp: step_unregister_def own_event_of_def)
qed (auto simp: own_event_of_def step_register_def step_drop_stale_def step_play_def step_header_def
      step_leave_def step_close_def SetUnhealthy_def Let_def dest: environment_frame)

lemma own_run:
  "owning (handlers s) (srv s) \<Longrightarrow> stream_run c as s = Some t \<Longrightarrow>
    streamCancel (srv t) = fold own_spec (own_events c as s) (streamCancel (srv s))"
proof (induction as arbitrary: s)
  case (Cons a as)
  then obtain u where u: "stream_step c a s = Some u" "stream_run c as u = Some t"
    by (auto split: option.splits)
  show ?case
    using Cons.IH [OF owning_step [OF Cons.prems(1) u(1)] u(2)] own_step [OF Cons.prems(1) u(1)] u(1) by simp
qed simp

section \<open>The counters\<close>

definition streaming :: "handler \<Rightarrow> bool" where
  "streaming h \<longleftrightarrow> hpc h = HLoop \<or> hpc h = HLeave"

definition counting :: "handler list \<Rightarrow> server \<Rightarrow> bool" where
  "counting hs v \<longleftrightarrow>
     active v = (\<Sum>h \<leftarrow> hs. of_bool (streaming h)) \<and> delivered v = word_of_nat (\<Sum>h \<leftarrow> hs. counted h)"

lemma sum_map_update:
  fixes f :: "'a \<Rightarrow> 'b::ab_group_add"
  shows "i < length xs \<Longrightarrow> (\<Sum>x \<leftarrow> xs[i := y]. f x) = (\<Sum>x \<leftarrow> xs. f x) - f (xs ! i) + f y"
  by (induction xs arbitrary: i) (auto split: nat.splits)

lemma sum_map_update_nat:
  fixes f :: "'a \<Rightarrow> nat"
  shows "i < length xs \<Longrightarrow> (\<Sum>x \<leftarrow> xs[i := y]. f x) + f (xs ! i) = (\<Sum>x \<leftarrow> xs. f x) + f y"
  by (induction xs arbitrary: i) (auto split: nat.splits)

text \<open>One handler is replaced; the counters move by what it counts more.\<close>

lemma counting_update:
  assumes "counting hs v" and "i < length hs"
    and "active u = active v + of_bool (streaming g) - of_bool (streaming (hs ! i))"
    and "counted g = counted (hs ! i) + n" and "delivered u = delivered v + word_of_nat n"
  shows "counting (hs[i := g]) u"
proof -
  have "(\<Sum>h \<leftarrow> hs[i := g]. counted h) = (\<Sum>h \<leftarrow> hs. counted h) + n"
    using sum_map_update_nat [OF assms(2), of counted g] assms(4) by simp
  moreover have "(\<Sum>h \<leftarrow> hs[i := g]. of_bool (streaming h)) = (\<Sum>h \<leftarrow> hs. of_bool (streaming h) :: int)
      - of_bool (streaming (hs ! i)) + of_bool (streaming g)"
    by (rule sum_map_update [OF assms(2)])
  ultimately show ?thesis using assms(1,3,5) by (simp add: counting_def)
qed

lemma counting_same:
  "counting hs v \<Longrightarrow> i < length hs \<Longrightarrow> active u = active v \<Longrightarrow> delivered u = delivered v \<Longrightarrow>
    streaming g = streaming (hs ! i) \<Longrightarrow> counted g = counted (hs ! i) \<Longrightarrow> counting (hs[i := g]) u"
  by (rule counting_update [where n = 0]) auto

lemma counting_cancel: "counting hs v \<Longrightarrow> (\<And>j. w = Some j \<Longrightarrow> j < length hs) \<Longrightarrow> counting (cancel_owner w hs) v"
  by (auto simp: cancel_owner_def streaming_def intro!: counting_same split: option.split)

lemma stream_counting_step:
  assumes "counting (handlers s) (srv s)" and "owning (handlers s) (srv s)" and "stream_step c a s = Some t"
    and unheard: "\<And>i. i < length (handlers s) \<Longrightarrow> hpc (handlers s ! i) = HHeader \<Longrightarrow> counted (handlers s ! i) = 0"
  shows "counting (handlers t) (srv t)"
  using assms(3)
proof (cases rule: stream_step_cases)
  case (register i h r)
  let ?ks = "cancel_owner (streamCancel (srv s)) (handlers s)"
  have o: "streamCancel (srv s) = Some j \<Longrightarrow> j < length (handlers s) \<and> j \<noteq> i" for j
    using assms(2) register(3,4) by (auto simp: owning_def registered_def)
  then have k: "counting ?ks (srv s)" by (intro counting_cancel [OF assms(1)]) auto
  have "?ks ! i = h" "i < length ?ks"
    using o register(2,3) by (auto simp: cancel_owner_def split: option.split)
  then show ?thesis
    using register(4) by (auto simp: register(5) step_register_def Let_def streaming_def intro!: counting_same [OF k])
next
  case (header i h r)
  show ?thesis
    using header unheard [of i]
    by (auto simp: step_header_def Let_def streaming_def intro!: counting_update [OF assms(1), of i _ _ 44])
next
  case (chunk i h r ch x ch' n b)
  then show ?thesis
    by (auto simp: streaming_def intro!: counting_update [OF assms(1), of i _ _ n])
next
  case (leave i h r)
  then show ?thesis
    by (auto simp: step_leave_def streaming_def intro!: counting_update [OF assms(1), of i _ _ 0])
next
  case (arrive uri r)
  then show ?thesis using assms(1) by (simp add: counting_def new_handler_def streaming_def)
next
  case (report r)
  then show ?thesis using assms(1) by (simp add: SetUnhealthy_def counting_def)
qed (use assms(1) in \<open>auto simp: step_drop_stale_def step_play_def step_unregister_def step_close_def
      streaming_def Let_def intro!: counting_same dest: environment_frame\<close>)

end
