(* ===== verification/StreamFlow.thy ===== *)
theory StreamFlow imports StreamModel begin

text \<open>
  What flows through the streams of \<open>StreamModel\<close>: the invariants of the sources (nothing waits in
  a channel that it did not accept, reading only moves forward), of the bytes on each connection,
  and of the positions of the chunks each handler received; and the properties of the streaming
  server that rest on them.
\<close>

section \<open>The sources under concurrent streams\<close>

text \<open>What waits in a channel is the end of what it accepted.\<close>

definition outlet_ok :: "outlet \<Rightarrow> bool" where
  "outlet_ok x \<longleftrightarrow> (\<exists>old. fed x = old @ waiting (src_of x))"

fun is_rec :: "source \<Rightarrow> bool" where
  "is_rec (SrcRec p) = True"
| "is_rec (SrcStatic x) = False"

text \<open>A source only moves on: same rate, more accepted, the reading position never back.\<close>

definition outlet_le :: "outlet \<Rightarrow> outlet \<Rightarrow> bool" where
  "outlet_le x y \<longleftrightarrow>
     SrcSampleRate (src_of y) = SrcSampleRate (src_of x) \<and> prefix (fed x) (fed y)
     \<and> head_pos x \<le> head_pos y \<and> outlet_ok y
     \<and> is_rec (src_of y) = is_rec (src_of x)"

definition outlets_grow :: "outlet list \<Rightarrow> outlet list \<Rightarrow> bool" where
  "outlets_grow xs ys \<longleftrightarrow>
     length xs \<le> length ys \<and> (\<forall>k < length xs. outlet_le (xs ! k) (ys ! k)) \<and> list_all outlet_ok ys"

lemma outlet_le_refl: "outlet_ok x \<Longrightarrow> outlet_le x x"
  by (simp add: outlet_le_def)

lemma outlets_grow_refl: "list_all outlet_ok xs \<Longrightarrow> outlets_grow xs xs"
  by (auto simp: outlets_grow_def outlet_le_refl list_all_length)

lemma outlets_grow_append: "list_all outlet_ok xs \<Longrightarrow> outlet_ok y \<Longrightarrow> outlets_grow xs (xs @ [y])"
  by (auto simp: outlets_grow_def outlet_le_refl list_all_length nth_append)

lemma outlets_grow_update:
  assumes "list_all outlet_ok xs" and "k < length xs \<Longrightarrow> outlet_le (xs ! k) y"
  shows "outlets_grow xs (xs[k := y])"
proof (cases "k < length xs")
  case True
  then show ?thesis
    using assms by (auto simp: outlets_grow_def outlet_le_refl list_all_length nth_list_update)
      (simp add: outlet_le_def)
next
  case False
  then show ?thesis using outlets_grow_refl [OF assms(1)] by (simp add: list_update_beyond not_less)
qed

lemma source_facts:
  "waiting (snd (SrcChunks x)) = waiting x" "waiting (SrcClose x) = waiting x" "waiting (with_chan ch x) = buf ch"
  "waiting (flushStalePreFill x) = (case x of SrcRec p \<Rightarrow> [] | SrcStatic y \<Rightarrow> waiting x)"
  "SrcSampleRate (snd (SrcChunks x)) = SrcSampleRate x" "SrcSampleRate (SrcClose x) = SrcSampleRate x"
  "SrcSampleRate (with_chan ch x) = SrcSampleRate x" "SrcSampleRate (flushStalePreFill x) = SrcSampleRate x"
  by (cases x; auto simp: waiting_def recorder_op_defs StaticChunks_def StaticClose_def StaticSrcRate_def
      RecSampleRate_def split: option.splits)+

lemma same_kind [simp]:
  "is_rec (snd (SrcChunks x)) = is_rec x" "is_rec (SrcClose x) = is_rec x" "is_rec (with_chan ch x) = is_rec x"
  "is_rec (flushStalePreFill x) = is_rec x"
  by (cases x; simp add: split_beta)+

text \<open>Replacing the source of an outlet by one that waits for a suffix of what it waited for.\<close>

lemma outlet_le_src:
  assumes "outlet_ok x" and "waiting (src_of x) = gone @ waiting y" and "SrcSampleRate y = SrcSampleRate (src_of x)"
    and "is_rec y = is_rec (src_of x)"
  shows "outlet_le x (x\<lparr>src_of := y\<rparr>)"
proof -
  obtain old where "fed x = old @ waiting (src_of x)" using assms(1) by (auto simp: outlet_ok_def)
  then have "fed x = (old @ gone) @ waiting y" using assms(2) by simp
  then have "outlet_ok (x\<lparr>src_of := y\<rparr>)" by (auto simp: outlet_ok_def)
  then show ?thesis using assms(2-4) by (auto simp: outlet_le_def head_pos_def)
qed

lemma outlet_le_feed:
  assumes "outlet_ok x" and "waiting y = waiting (src_of x) @ [c]" and "SrcSampleRate y = SrcSampleRate (src_of x)"
    and "is_rec y = is_rec (src_of x)"
  shows "outlet_le x \<lparr>src_of = y, fed = fed x @ [c]\<rparr>"
  using assms by (auto simp: outlet_le_def outlet_ok_def head_pos_def)

lemma set_src_grows:
  assumes "list_all outlet_ok (outlets s)"
    and "\<exists>gone. waiting (src_of (outlets s ! k)) = gone @ waiting y"
    and "SrcSampleRate y = SrcSampleRate (src_of (outlets s ! k))"
    and "is_rec y = is_rec (src_of (outlets s ! k))"
  shows "outlets_grow (outlets s) (outlets (set_src k y s))"
  unfolding set_src_def using assms
  by (auto intro!: outlets_grow_update outlet_le_src simp: list_all_length)

lemma srcFunc_grows:
  assumes "list_all outlet_ok (outlets s)"
  shows "outlets_grow (outlets s) (outlets (snd (srcFunc c s)))"
proof (cases "static_rate c")
  case None
  then show ?thesis using outlets_grow_refl [OF assms] by (simp add: srcFunc_def)
next
  case (Some n)
  have "outlet_ok \<lparr>src_of = SrcStatic (NewStaticSource (tone c) n), fed = replicate 4 (sineChunk (tone c))\<rparr>"
    unfolding outlet_ok_def waiting_def by (intro exI [of _ "[]"]) (simp add: NewStaticSource_chan)
  from outlets_grow_append [OF assms this] Some show ?thesis by (simp add: srcFunc_def)
qed

lemma outlets_step:
  assumes "list_all outlet_ok (outlets s)" and "stream_step c a s = Some t"
  shows "outlets_grow (outlets s) (outlets t)"
  using assms(2)
proof (cases rule: stream_step_cases)
  case (accept i h r k u)
  have "outlets t = outlets u" using accept by simp
  then show ?thesis using srcFunc_grows [OF assms(1), of c] accept(6) by simp
next
  case (drop_stale i h r)
  then show ?thesis
    using set_src_grows [OF assms(1), of "hsrc h" "flushStalePreFill (src_of (outlets s ! hsrc h))"]
    by (auto simp: step_drop_stale_def Let_def source_facts split: source.splits)
next
  case (header i h r)
  then show ?thesis
    using set_src_grows [OF assms(1), of "hsrc h" "snd (SrcChunks (src_of (outlets s ! hsrc h)))"]
    by (auto simp: step_header_def Let_def source_facts)
next
  case (chunk i h r ch x ch' n b)
  have "waiting (src_of (outlets s ! hsrc h)) = x # buf ch'"
    using chunk(5,6) by (auto simp: waiting_def try_recv_Some)
  then show ?thesis
    using set_src_grows [OF assms(1), of "hsrc h" "with_chan ch' (src_of (outlets s ! hsrc h))"]
    by (auto simp: chunk(8) source_facts)
next
  case (close i h r)
  then show ?thesis
    using set_src_grows [OF assms(1), of "hsrc h" "SrcClose (src_of (outlets s ! hsrc h))"]
    by (auto simp: step_close_def source_facts)
next
  case (feed k x)
  then show ?thesis
    using assms(1)
    by (auto simp: feed_def set_src_def waiting_def try_send_Some RecSampleRate_def list_all_length
        intro!: outlets_grow_update outlet_le_feed outlet_le_src split: if_splits source.splits option.splits)
next
  case (generate k)
  then show ?thesis
    using assms(1)
    by (auto simp: generate_def gen_send_def waiting_def try_send_Some StaticSrcRate_def list_all_length
        intro!: outlets_grow_update outlet_le_feed split: if_splits source.splits option.splits)
next
  case (generator_end k)
  then show ?thesis
    using assms(1)
    by (auto simp: generator_end_def gen_end_def set_src_def waiting_def StaticSrcRate_def list_all_length
        intro!: outlets_grow_update outlet_le_src split: if_splits source.splits option.splits)
next
  case (recorder n)
  have "outlet_ok \<lparr>src_of = SrcRec (RecStart (new_recorder 0 n)), fed = []\<rparr>"
    by (simp add: outlet_ok_def waiting_def recorder_op_defs new_recorder_def)
  then show ?thesis using assms(1) by (simp add: recorder(2) outlets_grow_append)
qed (use assms(1) in \<open>auto simp: step_register_def step_play_def step_leave_def step_unregister_def Let_def
      intro: outlets_grow_refl\<close>)

section \<open>The bytes on the connection\<close>

definition stream_of :: "u8 list \<Rightarrow> handler \<Rightarrow> u8 list" where
  "stream_of header h = header @ concat (map snd (got h))"

definition on_wire :: "handler \<Rightarrow> u8 list" where
  "on_wire h = sink_bytes (sink_of (bw h))"

text \<open>Three states of a connection: everything accepted so far is on the wire or held, in full
  batches; the writer failed, a prefix went out; the header itself was cut off and nothing follows.\<close>

definition flowing :: "u8 list \<Rightarrow> handler \<Rightarrow> bool" where
  "flowing header h \<longleftrightarrow>
     \<not> failed (bw h) \<and> on_wire h @ held (bw h) = stream_of header h \<and> counted h = length (stream_of header h)
     \<and> (\<exists>ws. writes (sink_of (bw h)) = header # ws
         \<and> list_all (\<lambda>w. streamFlushThreshold \<le> length w) (if hpc h = HLoop then ws else butlast ws))
     \<and> (hpc h \<noteq> HLoop \<longrightarrow> held (bw h) = [])"

definition wire_ok :: "u8 list \<Rightarrow> handler \<Rightarrow> bool" where
  "wire_ok header h \<longleftrightarrow>
     bw_ok (bw h) \<and> bsize (bw h) = streamFlushThreshold
     \<and> (room (sink_of (bw h)) = None \<longrightarrow> flowing header h)
     \<and> (flowing header h
        \<or> failed (bw h) \<and> prefix (on_wire h @ held (bw h)) (stream_of header h)
        \<or> room (sink_of (bw h)) = Some 0 \<and> prefix (on_wire h) header)"

lemma stream_of_got:
  "stream_of header (h\<lparr>bw := b, got := got h @ [(p, c)], counted := n\<rparr>) = stream_of header h @ c"
  by (simp add: stream_of_def)

lemma wire_ok_header:
  assumes "sink_write header \<lparr>writes = [], room = r\<rparr> = (n, e, w)" and "header \<noteq> []"
    and "bw h = NewWriterSize w streamFlushThreshold" and "got h = []" and "counted h = length header" and "hpc h = HLoop"
  shows "wire_ok header h"
proof -
  have b: "\<not> failed (bw h)" "held (bw h) = []" "sink_of (bw h) = w" "bsize (bw h) = streamFlushThreshold" "bw_ok (bw h)"
    by (simp_all add: assms(3) NewWriterSize_def bw_ok_def streamFlushThreshold_def)
  have w: "r = None \<and> writes w = [header] \<and> room w = None \<or> r \<noteq> None \<and> writes w = [header]
      \<or> r \<noteq> None \<and> room w = Some 0 \<and> prefix (sink_bytes w) header"
    using assms(1) by (auto simp: sink_write_def sink_bytes_def take_is_prefix split: option.splits if_splits)
  have "flowing header h" if "writes w = [header]"
    using that b assms(4-6) by (simp add: flowing_def on_wire_def sink_bytes_def stream_of_def)
  then show ?thesis using w b sink_write_le [OF assms(1)] by (auto simp: wire_ok_def on_wire_def sink_le_def)
qed

lemma wire_ok_chunk:
  assumes "wire_ok header h" and "hpc h = HLoop" and "bw_write c (bw h) = (n, b)"
  shows "wire_ok header (h\<lparr>bw := b, got := got h @ [(p, c)], counted := counted h + n\<rparr>)" (is "wire_ok header ?g")
proof -
  have ok: "bw_ok (bw h)" "bsize (bw h) = streamFlushThreshold" using assms(1) by (simp_all add: wire_ok_def)
  note pr = bw_write_progress [OF ok(1) assms(3), unfolded bw_progress_def]
  note le = bw_write_le [OF assms(3), unfolded bw_le_def sink_le_def]
  have flow: "flowing header ?g" if f: "flowing header h" and nf: "\<not> failed b"
  proof -
    obtain ws where ws: "writes (sink_of (bw h)) = header # ws" "list_all (\<lambda>w. streamFlushThreshold \<le> length w) ws"
      using f assms(2) by (auto simp: flowing_def)
    obtain vs where vs: "writes (sink_of b) = writes (sink_of (bw h)) @ vs" "list_all (\<lambda>x. bsize (bw h) \<le> length x) vs"
      using pr nf by auto
    have "n = length c" using pr nf by simp
    moreover have "sink_bytes (sink_of b) @ held b = stream_of header h @ c"
      using pr f \<open>n = length c\<close> by (simp add: flowing_def on_wire_def)
    ultimately show ?thesis
      using f nf ws vs ok(2) assms(2) stream_of_got [where header = header and h = h and b = b and p = p and c = c and n = "counted h + n"]
      by (simp add: flowing_def on_wire_def)
  qed
  have broken: "prefix (sink_bytes (sink_of b) @ held b) (stream_of header ?g)" if "flowing header h"
    using pr that stream_of_got [where header = header and h = h and b = b and p = p and c = c and n = "counted h + n"]
    by (metis flowing_def on_wire_def append_assoc same_prefix_prefix take_is_prefix)
  have never: "room (sink_of b) = None \<Longrightarrow> flowing header ?g"
    using le assms(1) flow by (auto simp: wire_ok_def flowing_def)
  have "flowing header ?g \<or> failed (bw ?g) \<and> prefix (on_wire ?g @ held (bw ?g)) (stream_of header ?g)
      \<or> room (sink_of (bw ?g)) = Some 0 \<and> prefix (on_wire ?g) header"
  proof -
    consider "flowing header h" | "failed (bw h)" "prefix (on_wire h @ held (bw h)) (stream_of header h)"
      | "room (sink_of (bw h)) = Some 0" "prefix (on_wire h) header"
      using assms(1) by (auto simp: wire_ok_def)
    then show ?thesis
    proof cases
      case 1
      then show ?thesis using flow broken by (cases "failed b") (auto simp: on_wire_def)
    next
      case 2
      then have "b = bw h" using pr by simp
      then show ?thesis
        using 2 stream_of_got [where header = header and h = h and b = b and p = p and c = c and n = "counted h + n"] by (simp add: on_wire_def)
    next
      case 3
      then show ?thesis using le by (simp add: on_wire_def)
    qed
  qed
  then show ?thesis using pr ok never by (simp add: wire_ok_def)
qed

lemma wire_ok_finish:
  assumes "wire_ok header h" and "hpc h = HLoop"
  shows "wire_ok header (h\<lparr>bw := bw_flush (bw h), hpc := HLeave\<rparr>)" (is "wire_ok header ?g")
proof -
  have ok: "bw_ok (bw h)" "bsize (bw h) = streamFlushThreshold" using assms(1) by (simp_all add: wire_ok_def)
  note le = bw_flush_le [of "bw h", unfolded bw_le_def sink_le_def]
  have s: "stream_of header ?g = stream_of header h" "on_wire ?g @ held (bw ?g) = on_wire h @ held (bw h)"
    by (simp_all add: stream_of_def on_wire_def bw_flush_bytes)
  have flow: "flowing header ?g" if f: "flowing header h" and nf: "\<not> failed (bw_flush (bw h))"
  proof -
    obtain ws where ws: "writes (sink_of (bw h)) = header # ws" "list_all (\<lambda>w. streamFlushThreshold \<le> length w) ws"
      using f assms(2) by (auto simp: flowing_def)
    obtain vs where vs: "writes (sink_of (bw_flush (bw h))) = writes (sink_of (bw h)) @ vs" "length vs \<le> 1"
      using bw_flush_writes by blast
    have "prefix (butlast (ws @ vs)) ws"
      using vs(2) by (cases vs) (auto simp: butlast_append prefixeq_butlast)
    then have "list_all (\<lambda>w. streamFlushThreshold \<le> length w) (butlast (ws @ vs))"
      using ws(2) by (metis list_all_append prefix_def)
    moreover have "held (bw_flush (bw h)) = []" by (rule bw_flush_held [OF nf])
    ultimately show ?thesis using f nf ws vs s by (simp add: flowing_def)
  qed
  have "room (sink_of (bw ?g)) = None \<Longrightarrow> flowing header ?g"
    using le assms(1) flow by (auto simp: wire_ok_def flowing_def)
  moreover have "flowing header ?g \<or> failed (bw ?g) \<and> prefix (on_wire ?g @ held (bw ?g)) (stream_of header ?g)
      \<or> room (sink_of (bw ?g)) = Some 0 \<and> prefix (on_wire ?g) header"
  proof -
    consider "flowing header h" | "failed (bw h)" "prefix (on_wire h @ held (bw h)) (stream_of header h)"
      | "room (sink_of (bw h)) = Some 0" "prefix (on_wire h) header"
      using assms(1) by (auto simp: wire_ok_def)
    then show ?thesis
    proof cases
      case 1
      then show ?thesis using flow s by (cases "failed (bw_flush (bw h))") (auto simp: flowing_def)
    next
      case 2
      then have "bw_flush (bw h) = bw h" by (simp add: bw_flush_def)
      then show ?thesis using 2 s by simp
    next
      case 3
      then show ?thesis using le by (simp add: on_wire_def)
    qed
  qed
  ultimately show ?thesis using ok by (simp add: wire_ok_def)
qed

text \<open>Nothing else a handler does after its loop touches the connection.\<close>

lemma wire_ok_later:
  assumes "wire_ok header h" and "bw g = bw h" and "got g = got h" and "counted g = counted h"
    and "hpc g = HLoop \<longleftrightarrow> hpc h = HLoop"
  shows "wire_ok header g"
  using assms by (simp add: wire_ok_def flowing_def on_wire_def stream_of_def)

section \<open>The invariant of a handler\<close>

definition before_header :: "handler \<Rightarrow> bool" where
  "before_header h \<longleftrightarrow> hpc h \<in> {HStart, HRegister, HFlush, HPlay, HHeader}"

text \<open>The positions received: in order, from where the stream started, each once.\<close>

definition pos_ok :: "outlet \<Rightarrow> handler \<Rightarrow> bool" where
  "pos_ok x h \<longleftrightarrow>
     since h \<le> head_pos x \<and> sorted_wrt (<) (map fst (got h))
     \<and> list_all (\<lambda>(p, c). since h \<le> p \<and> p < head_pos x \<and> p < length (fed x) \<and> fed x ! p = c) (got h)"

definition handler_ok :: "outlet list \<Rightarrow> handler \<Rightarrow> bool" where
  "handler_ok xs h \<longleftrightarrow>
     (before_header h \<longrightarrow> counted h = 0)
     \<and> (counted h = 0 \<longrightarrow> got h = [] \<and> (before_header h \<or> hpc h = HDone)
          \<and> (\<exists>r. sink_of (bw h) = \<lparr>writes = [], room = r\<rparr>))
     \<and> (hpc h \<notin> {HStart, HDone} \<or> 0 < counted h \<longrightarrow> hsrc h < length xs)
     \<and> (hpc h \<in> {HPlay, HHeader} \<or> 0 < counted h \<longrightarrow> pos_ok (xs ! hsrc h) h)
     \<and> (0 < counted h \<longrightarrow> wire_ok (writeWAVHeader (SrcSampleRate (src_of (xs ! hsrc h)))) h)"

lemma pos_ok_grow: "pos_ok x h \<Longrightarrow> outlet_le x y \<Longrightarrow> pos_ok y h"
  by (fastforce simp: pos_ok_def outlet_le_def prefix_def nth_append list_all_iff)

lemma handler_ok_grow:
  assumes "handler_ok xs h" and "outlets_grow xs ys"
  shows "handler_ok ys h"
proof (cases "hsrc h < length xs")
  case True
  then have "outlet_le (xs ! hsrc h) (ys ! hsrc h)" "hsrc h < length ys"
    using assms(2) by (auto simp: outlets_grow_def)
  then have "pos_ok (xs ! hsrc h) h \<Longrightarrow> pos_ok (ys ! hsrc h) h"
      "SrcSampleRate (src_of (ys ! hsrc h)) = SrcSampleRate (src_of (xs ! hsrc h))"
    using pos_ok_grow by (simp_all add: outlet_le_def)
  then show ?thesis using assms(1) \<open>hsrc h < length ys\<close> by (simp add: handler_ok_def)
next
  case False
  then have "hpc h \<in> {HStart, HDone}" "counted h = 0" using assms(1) by (auto simp: handler_ok_def)
  then show ?thesis using assms(1) by (auto simp: handler_ok_def)
qed

lemma handler_ok_new: "handler_ok xs (new_handler uri r)"
  by (simp add: handler_ok_def new_handler_def before_header_def NewWriterSize_def)

text \<open>A step that keeps the connection, the chunks and the source of its handler.\<close>

lemma handler_ok_pc:
  assumes "handler_ok xs h" and "bw g = bw h" "got g = got h" "counted g = counted h" "hsrc g = hsrc h" "since g = since h"
    and "before_header g = before_header h" and "hpc g = HLoop \<longleftrightarrow> hpc h = HLoop"
    and "hpc g \<in> {HPlay, HHeader} \<longrightarrow> hpc h \<in> {HPlay, HHeader}" and "hpc h \<notin> {HStart, HDone}"
  shows "handler_ok xs g"
proof (cases "counted h = 0")
  case True
  then show ?thesis using assms by (auto simp: handler_ok_def pos_ok_def)
next
  case False
  then show ?thesis
    using assms wire_ok_later [of _ h g] by (auto simp: handler_ok_def pos_ok_def)
qed

definition flow_ok :: "stream_sys \<Rightarrow> bool" where
  "flow_ok s \<longleftrightarrow>
     list_all outlet_ok (outlets s) \<and> list_all (handler_ok (outlets s)) (handlers s)
     \<and> (\<forall>k. slot s = Some k \<longrightarrow> k < length (outlets s))"

text \<open>When the sources have grown, it remains to look at the handler that moved.\<close>

lemma flow_ok_update:
  assumes "flow_ok s" and "outlets_grow (outlets s) (outlets t)" and "handlers t = (handlers s)[i := g]"
    and "slot t = slot s" and "i < length (handlers s) \<Longrightarrow> handler_ok (outlets t) g"
  shows "flow_ok t"
proof -
  have h: "handler_ok (outlets t) (handlers s ! j)" if "j < length (handlers s)" for j
    using handler_ok_grow [OF _ assms(2)] assms(1) that by (simp add: flow_ok_def list_all_length)
  have "list_all (handler_ok (outlets t)) (handlers t)"
    using h assms(3,5)
    by (cases "i < length (handlers s)") (auto simp: list_all_length nth_list_update list_update_beyond not_less)
  then show ?thesis using assms(1,2,4) by (auto simp: flow_ok_def outlets_grow_def)
qed

lemma flow_ok_environment:
  assumes "flow_ok s" and "outlets_grow (outlets s) (outlets t)" and "handlers t = handlers s" and "slot t = slot s"
  shows "flow_ok t"
  using flow_ok_update [OF assms(1,2), of "length (handlers s)" undefined] assms(3,4) by (simp add: list_update_beyond)

lemma environment_slot:
  "feed k x s = Some t \<Longrightarrow> slot t = slot s" "generate k s = Some t \<Longrightarrow> slot t = slot s"
  "generator_end k s = Some t \<Longrightarrow> slot t = slot s"
  by (auto simp: feed_def generate_def generator_end_def split: if_splits option.splits source.splits)

lemma srcFunc_slot: "srcFunc c s = (k, u) \<Longrightarrow> slot u = slot s"
  by (auto simp: srcFunc_def split: option.splits)

lemma srcFunc_valid:
  assumes "srcFunc c s = (Some k, u)" and "\<forall>k. slot s = Some k \<longrightarrow> k < length (outlets s)"
  shows "k < length (outlets u)"
  using assms by (auto simp: srcFunc_def split: option.splits)

lemma head_pos_flush:
  assumes "k < length (outlets s)"
  shows "head_pos (outlets (set_src k y s) ! k) = length (fed (outlets s ! k)) - length (waiting y)"
  using assms by (simp add: set_src_def head_pos_def)

lemma handler_at: "flow_ok s \<Longrightarrow> i < length (handlers s) \<Longrightarrow> handler_ok (outlets s) (handlers s ! i)"
  by (simp add: flow_ok_def list_all_length)

lemma outlet_at: "flow_ok s \<Longrightarrow> k < length (outlets s) \<Longrightarrow> outlet_ok (outlets s ! k)"
  by (simp add: flow_ok_def list_all_length)

text \<open>Cancelling a handler changes nothing it sends.\<close>

lemma handler_ok_cancel: "handler_ok xs h \<Longrightarrow> handler_ok xs (h\<lparr>ctx_done := True\<rparr>)"
  by (simp add: handler_ok_def before_header_def pos_ok_def wire_ok_def flowing_def on_wire_def stream_of_def)

lemma handler_ok_finish:
  assumes "handler_ok xs h" and "hpc h = HLoop"
  shows "handler_ok xs (h\<lparr>bw := bw_flush (bw h), hpc := HLeave\<rparr>)"
proof -
  have "wire_ok x h \<Longrightarrow> wire_ok x (h\<lparr>bw := bw_flush (bw h), hpc := HLeave\<rparr>)" for x
    by (rule wire_ok_finish [OF _ assms(2)])
  then show ?thesis using assms by (auto simp: handler_ok_def before_header_def pos_ok_def)
qed

lemma handler_ok_header:
  assumes "handler_ok xs h" and "hpc h = HHeader" and "header = writeWAVHeader (SrcSampleRate (src_of (xs ! hsrc h)))"
  shows "handler_ok xs (h\<lparr>hreply := rep, bw := NewWriterSize (snd (snd (sink_write header (sink_of (bw h))))) streamFlushThreshold,
                   counted := length header, hpc := HLoop\<rparr>)" (is "handler_ok xs ?g")
proof -
  obtain r where r: "sink_of (bw h) = \<lparr>writes = [], room = r\<rparr>" and g: "got h = []"
    using assms(1,2) by (auto simp: handler_ok_def before_header_def)
  have k: "hsrc h < length xs" "pos_ok (xs ! hsrc h) h" using assms(1,2) by (simp_all add: handler_ok_def)
  obtain n e w where w: "sink_write header \<lparr>writes = [], room = r\<rparr> = (n, e, w)"
    by (cases "sink_write header \<lparr>writes = [], room = r\<rparr>")
  have len: "length header = 44" by (simp add: assms(3))
  have "wire_ok header ?g" by (rule wire_ok_header [OF w]) (use len w r g in auto)
  then show ?thesis using k len assms(3) by (simp add: handler_ok_def before_header_def pos_ok_def)
qed

text \<open>Receiving: the chunk is the one at the reading position of the source, which moves on.\<close>

lemma pos_ok_chunk:
  assumes "outlet_ok o1" and "pos_ok o1 h" and "waiting (src_of o1) = x # rest"
    and "o2 = o1\<lparr>src_of := y\<rparr>" and "waiting y = rest"
  shows "pos_ok o2 (h\<lparr>bw := b, got := got h @ [(head_pos o1, x)], counted := n\<rparr>)"
proof -
  obtain old where old: "fed o1 = old @ x # rest" using assms(1,3) by (auto simp: outlet_ok_def)
  have p: "head_pos o1 = length old" "head_pos o2 = Suc (length old)" by (simp_all add: head_pos_def assms(3-5) old)
  show ?thesis
    using assms(2) unfolding pos_ok_def p
    by (auto simp: assms(4) old sorted_wrt_append list_all_iff less_Suc_eq)
qed

lemma handler_ok_chunk:
  assumes "handler_ok xs h" and "hpc h = HLoop" and "bw_write x (bw h) = (n, b)"
    and "outlet_ok (xs ! hsrc h)" and "waiting (src_of (xs ! hsrc h)) = x # rest"
    and "length ys = length xs" and "ys ! hsrc h = (xs ! hsrc h)\<lparr>src_of := y\<rparr>" and "waiting y = rest"
    and "SrcSampleRate y = SrcSampleRate (src_of (xs ! hsrc h))"
  shows "handler_ok ys (h\<lparr>bw := b, got := got h @ [(head_pos (xs ! hsrc h), x)], counted := counted h + n\<rparr>)"
    (is "handler_ok ys ?g")
proof -
  have c: "0 < counted h" using assms(1,2) by (auto simp: handler_ok_def before_header_def)
  then have h: "hsrc h < length xs" "pos_ok (xs ! hsrc h) h"
      "wire_ok (writeWAVHeader (SrcSampleRate (src_of (xs ! hsrc h)))) h"
    using assms(1) by (simp_all add: handler_ok_def)
  have "pos_ok (ys ! hsrc h) ?g" by (rule pos_ok_chunk [OF assms(4) h(2) assms(5,7,8)])
  moreover have "wire_ok (writeWAVHeader (SrcSampleRate (src_of (xs ! hsrc h)))) ?g"
    by (rule wire_ok_chunk [OF h(3) assms(2,3)])
  ultimately show ?thesis
    using c h(1) assms(2,6,7,9) by (simp add: handler_ok_def before_header_def)
qed

lemma flow_ok_cancel_owner:
  assumes "flow_ok s"
  shows "flow_ok (s\<lparr>handlers := cancel_owner w (handlers s)\<rparr>)"
proof (cases w)
  case None
  then show ?thesis using assms by (simp add: cancel_owner_def)
next
  case (Some j)
  have "outlets_grow (outlets s) (outlets s)" using assms by (simp add: flow_ok_def outlets_grow_refl)
  then show ?thesis
    using flow_ok_update [where s = s and t = "s\<lparr>handlers := cancel_owner w (handlers s)\<rparr>" and i = j] assms
      handler_ok_cancel [OF handler_at [OF assms]]
    by (simp add: Some cancel_owner_def)
qed

lemma step_ok_register:
  assumes "flow_ok s" and "i < length (handlers s)" and "hpc (handlers s ! i) = HRegister"
  shows "flow_ok (step_register i (handlers s ! i) s)"
proof -
  let ?s = "s\<lparr>handlers := cancel_owner (streamCancel (srv s)) (handlers s)\<rparr>"
  let ?g = "(handlers s ! i)\<lparr>myID := streamID (srv s) + 1, hpc := HFlush\<rparr>"
  have "handler_ok (outlets s) ?g"
    by (rule handler_ok_pc [OF handler_at [OF assms(1,2)]]) (use assms(3) in \<open>simp_all add: before_header_def\<close>)
  moreover have "outlets_grow (outlets s) (outlets s)" using assms(1) by (simp add: flow_ok_def outlets_grow_refl)
  ultimately show ?thesis
    using flow_ok_update [where s = ?s and t = "step_register i (handlers s ! i) s" and i = i]
      flow_ok_cancel_owner [OF assms(1), of "streamCancel (srv s)"]
    by (simp add: step_register_def Let_def)
qed

lemma flow_step:
  assumes "flow_ok s" and "stream_step c a s = Some t"
  shows "flow_ok t"
proof -
  have ok: "list_all outlet_ok (outlets s)" using assms(1) by (simp add: flow_ok_def)
  note grow = outlets_step [OF ok assms(2)]
  note H = handler_ok_grow [OF handler_at [OF assms(1)] grow]
  note upd = flow_ok_update [OF assms(1) grow] and env = flow_ok_environment [OF assms(1) grow]
  show ?thesis
    using assms(2)
  proof (cases rule: stream_step_cases)
    case (reject i h r rep)
    have "handler_ok (outlets t) (h\<lparr>hreply := Some rep, hpc := HDone\<rparr>)"
      using H [OF reject(2)] reject(3,4) by (simp add: handler_ok_def before_header_def pos_ok_def)
    then show ?thesis using upd [of i] reject(5) by simp
  next
    case (accept i h r k u)
    have "k < length (outlets t)"
      using srcFunc_valid [OF accept(6)] assms(1) accept(7) by (simp add: flow_ok_def)
    then have "handler_ok (outlets t) (h\<lparr>hsrc := k, hpc := HRegister\<rparr>)"
      using H [OF accept(2)] accept(3,4) by (simp add: handler_ok_def before_header_def pos_ok_def)
    then show ?thesis using upd [of i] accept srcFunc_slot [OF accept(6)] by simp
  next
    case (register i h r)
    then show ?thesis using step_ok_register [OF assms(1) register(2)] by simp
  next
    case (drop_stale i h r)
    let ?g = "h\<lparr>since := head_pos (outlets t ! hsrc h), hpc := HPlay\<rparr>"
    have o: "handlers t = (handlers s)[i := ?g]" "slot t = slot s"
      by (simp_all add: drop_stale(5) step_drop_stale_def Let_def)
    have "handler_ok (outlets t) ?g"
      using H [OF drop_stale(2)] drop_stale(3,4) by (simp add: handler_ok_def before_header_def pos_ok_def)
    then show ?thesis using upd [OF o] by blast
  next
    case (header i h r)
    have "SrcSampleRate (src_of (outlets t ! hsrc h)) = SrcSampleRate (src_of (outlets s ! hsrc h))"
      using grow handler_at [OF assms(1) header(2)] header(3,4)
      by (auto simp: outlets_grow_def outlet_le_def handler_ok_def)
    then show ?thesis
      using upd [of i] handler_ok_header [OF H [OF header(2)]] header
      by (simp add: step_header_def Let_def count_active_def count_bytes_def)
  next
    case (finish i h r)
    then show ?thesis using upd [of i] handler_ok_finish [OF H [OF finish(2)]] by simp
  next
    case (chunk i h r ch x ch' n b)
    have hk: "handler_ok (outlets s) h" "hsrc h < length (outlets s)"
      using handler_at [OF assms(1) chunk(2)] chunk(3,4) by (simp_all add: handler_ok_def)
    have wt: "waiting (src_of (outlets s ! hsrc h)) = x # buf ch'"
      using chunk(5,6) by (auto simp: waiting_def try_recv_Some)
    have o: "length (outlets t) = length (outlets s)"
        "outlets t ! hsrc h = (outlets s ! hsrc h)\<lparr>src_of := with_chan ch' (src_of (outlets s ! hsrc h))\<rparr>"
      using hk(2) by (simp_all add: chunk(8) set_src_def)
    from handler_ok_chunk [OF hk(1) chunk(4,7) outlet_at [OF assms(1) hk(2)] wt o]
    show ?thesis using upd [of i] chunk(8) by (simp add: source_facts count_bytes_def)
  next
    case (arrive uri r)
    then show ?thesis using assms(1) by (simp add: flow_ok_def handler_ok_new)
  next
    case (disconnect i)
    then show ?thesis using upd [of i] handler_ok_cancel [OF H [OF disconnect(2)]] by simp
  next
    case (recorder n)
    have "list_all outlet_ok (outlets t)" "slot t = Some (length (outlets s))"
        "length (outlets t) = Suc (length (outlets s))" "handlers t = handlers s"
      using grow by (simp_all add: outlets_grow_def recorder(2))
    then show ?thesis using H by (simp add: flow_ok_def list_all_length)
  next
    case no_recorder
    then show ?thesis using assms(1) by (simp add: flow_ok_def)
  next
    case (report r)
    then show ?thesis using assms(1) by (simp add: flow_ok_def)
  next
    case (play i h r)
    have "handler_ok (outlets t) (h\<lparr>hpc := HHeader\<rparr>)"
      by (rule handler_ok_pc [OF H [OF play(2)]]) (use play(3,4) in \<open>simp_all add: before_header_def\<close>)
    then show ?thesis using upd [of i] play(5) by (simp add: step_play_def)
  next
    case (leave i h r)
    have "handler_ok (outlets t) (h\<lparr>hpc := HUnregister\<rparr>)"
      by (rule handler_ok_pc [OF H [OF leave(2)]]) (use leave(3,4) in \<open>simp_all add: before_header_def\<close>)
    then show ?thesis using upd [of i] leave(5) by (simp add: step_leave_def count_active_def)
  next
    case (unregister i h r)
    have "handler_ok (outlets t) (h\<lparr>hpc := HClose\<rparr>)"
      by (rule handler_ok_pc [OF H [OF unregister(2)]]) (use unregister(3,4) in \<open>simp_all add: before_header_def\<close>)
    then show ?thesis using upd [of i] unregister(5) by (simp add: step_unregister_def)
  next
    case (close i h r)
    have "handler_ok (outlets t) (h\<lparr>ctx_done := True, hpc := HDone\<rparr>)"
      by (rule handler_ok_pc [OF H [OF close(2)]]) (use close(3,4) in \<open>simp_all add: before_header_def\<close>)
    then show ?thesis using upd [of i] close(5) by (simp add: step_close_def)
  qed (auto intro!: env simp: environment_frame environment_slot)
qed

lemma flow_reach: "stream_reach c s \<Longrightarrow> flow_ok s"
proof (induction rule: stream_reach.induct)
  case stream_zero
  show ?case by (simp add: flow_ok_def stream_init_def)
qed (rule flow_step)

lemma counting_reach: "stream_reach c s \<Longrightarrow> counting (handlers s) (srv s)"
proof (induction rule: stream_reach.induct)
  case stream_zero
  show ?case by (simp add: counting_def stream_init_def new_server_def)
next
  case (stream_next s a t)
  have "counted (handlers s ! i) = 0" if "i < length (handlers s)" "hpc (handlers s ! i) = HHeader" for i
    using flow_reach [OF stream_next(1)] that
    by (auto simp: flow_ok_def list_all_length handler_ok_def before_header_def)
  then show ?case by (rule stream_counting_step [OF stream_next(3) owning_reach [OF stream_next(1)] stream_next(2)])
qed

section \<open>Where a stream starts\<close>

text \<open>Once a handler has dropped the stale chunks, its source and its starting position stay.\<close>

definition begun :: "handler \<Rightarrow> handler \<Rightarrow> bool" where
  "begun h g \<longleftrightarrow> hsrc g = hsrc h \<and> since g = since h \<and> hpc g \<notin> {HStart, HRegister, HFlush}"

lemma begun_step:
  assumes "stream_step c a s = Some t" and "i < length (handlers s)" and "hpc (handlers s ! i) \<notin> {HStart, HRegister, HFlush}"
  shows "begun (handlers s ! i) (handlers t ! i) \<and> i < length (handlers t)"
  using assms(1)
proof (cases rule: stream_step_cases)
  case (register j h r)
  then have "i \<noteq> j" using assms(3) by auto
  moreover have "begun (handlers s ! i) (cancel_owner w (handlers s) ! i)" for w
    using assms(2,3) by (auto simp: begun_def cancel_owner_def nth_update split: option.split)
  moreover have "length (cancel_owner w (handlers s)) = length (handlers s)" for w
    by (simp add: cancel_owner_def split: option.split)
  ultimately show ?thesis using register(5) assms(2) by (simp add: step_register_def Let_def)
next
  case (arrive uri r)
  then show ?thesis using assms(2,3) by (simp add: begun_def nth_append)
qed (use assms(2,3) in \<open>auto simp: begun_def nth_list_update step_drop_stale_def step_play_def step_header_def
      step_leave_def step_unregister_def step_close_def Let_def environment_frame\<close>)

lemma begun_run:
  "stream_run c as s = Some t \<Longrightarrow> i < length (handlers s) \<Longrightarrow> hpc (handlers s ! i) \<notin> {HStart, HRegister, HFlush} \<Longrightarrow>
    begun (handlers s ! i) (handlers t ! i) \<and> i < length (handlers t)"
proof (induction as arbitrary: s)
  case (Cons a as)
  then obtain u where u: "stream_step c a s = Some u" "stream_run c as u = Some t"
    by (auto split: option.splits)
  have b: "begun (handlers s ! i) (handlers u ! i)" "i < length (handlers u)"
    using begun_step [OF u(1) Cons.prems(2,3)] by auto
  then show ?case using Cons.IH [OF u(2) b(2)] by (auto simp: begun_def)
qed (simp add: begun_def)

text \<open>Increasing positions pick a subsequence.\<close>

lemma subseq_positions:
  "sorted_wrt (<) (map fst ps) \<Longrightarrow> \<forall>(p, c) \<in> set ps. n \<le> p \<and> p < length xs \<and> xs ! p = c \<Longrightarrow>
    subseq (map snd ps) (drop n xs)"
proof (induction ps arbitrary: n)
  case (Cons q ps)
  obtain p c where q: "q = (p, c)" by (cases q)
  have p: "n \<le> p" "p < length xs" "xs ! p = c" using Cons.prems(2) q by auto
  have "\<forall>(p', c') \<in> set ps. Suc p \<le> p' \<and> p' < length xs \<and> xs ! p' = c'"
    using Cons.prems q by fastforce
  then have "subseq (map snd ps) (drop (Suc p) xs)" using Cons.IH Cons.prems(1) by simp
  then have "subseq (c # map snd ps) (c # drop (Suc p) xs)" by simp
  moreover have "drop p xs = c # drop (Suc p) xs" using p Cons_nth_drop_Suc [of p xs] by simp
  moreover have "drop n xs = take (p - n) (drop n xs) @ drop p xs"
    using p(1) by (metis append_take_drop_id drop_drop le_add_diff_inverse2)
  ultimately show ?case using q by (metis list.simps(9) snd_conv subseq_drop_many)
qed simp

lemma subseq_handler:
  assumes "handler_ok xs h" and "hpc h \<notin> {HStart, HRegister, HFlush}"
  shows "subseq (map snd (got h)) (drop (since h) (fed (xs ! hsrc h)))"
proof (cases "counted h = 0")
  case True
  then show ?thesis using assms(1) by (simp add: handler_ok_def)
next
  case False
  then have "pos_ok (xs ! hsrc h) h" using assms(1) by (simp add: handler_ok_def)
  then show ?thesis by (intro subseq_positions) (auto simp: pos_ok_def list_all_iff)
qed

lemma wire_ok_body:
  assumes "wire_ok header h" and "body = stream_of header h"
  shows "prefix (on_wire h) body
    \<and> (if room (sink_of (bw h)) = None
       then counted h = length body
         \<and> (if hpc h = HLoop
            then length body \<le> length (on_wire h) + streamFlushThreshold
              \<and> list_all (\<lambda>w. streamFlushThreshold \<le> length w) (tl (writes (sink_of (bw h))))
            else on_wire h = body)
       else True)"
proof -
  have f: "prefix (on_wire h) body" if "flowing header h"
    using that assms(2) by (metis flowing_def prefixI)
  have "prefix (on_wire h) header \<Longrightarrow> prefix (on_wire h) body"
    by (simp add: assms(2) stream_of_def)
  moreover have "prefix (on_wire h @ held (bw h)) body \<Longrightarrow> prefix (on_wire h) body" by (rule append_prefixD)
  ultimately have "prefix (on_wire h) body"
    using assms f by (auto simp: wire_ok_def)
  moreover have "length (held (bw h)) \<le> streamFlushThreshold"
    using assms(1) by (simp add: wire_ok_def bw_ok_def)
  moreover have "length body = length (on_wire h) + length (held (bw h))" if "flowing header h"
    using that assms(2) by (metis flowing_def length_append)
  ultimately show ?thesis
    using assms by (auto simp: wire_ok_def flowing_def)
qed

section \<open>Concrete runs\<close>

lemmas stream_eval =
  stream_step_def handleStream_step_def step_begin_def step_register_def step_drop_stale_def step_play_def step_header_def
  step_ctx_def step_chunk_def step_leave_def step_unregister_def step_close_def srcFunc_def set_h_def set_src_def
  cancel_owner_def count_bytes_def count_active_def stream_init_def new_server_def new_handler_def Let_def
  feed_def try_send_def try_recv_def head_pos_def waiting_def recorder_op_defs new_recorder_def bufferLen_def make_chan_def

definition demo_uri :: string where "demo_uri = ''spotify:album:4aawyAB9vmqN3uQ7FjRGTy''"
definition other_uri :: string where "other_uri = ''spotify:track:1''"

lemma demo_uris [simp]: "validURI demo_uri" "validURI other_uri"
  unfolding demo_uri_def other_uri_def by code_simp+

definition live_conf :: stream_conf where
  "live_conf = \<lparr>static_rate = None, tone = (\<lambda>i. 0)\<rparr>"

text \<open>Two requests whose critical sections and play calls interleave.\<close>

definition race_acts :: "string \<Rightarrow> string \<Rightarrow> stream_act list" where
  "race_acts u0 u1 =
    [NewRecorder 4, Arrive u0 None, Arrive u1 None,
     Handler 0 TakeCtx, Handler 0 TakeCtx, Handler 1 TakeCtx, Handler 1 TakeCtx,
     Handler 1 TakeCtx, Handler 1 TakeCtx, Handler 0 TakeCtx, Handler 0 TakeCtx]"

lemma race_run:
  assumes "validURI u0" and "validURI u1"
  shows "\<exists>t. stream_run live_conf (race_acts u0 u1) stream_init = Some t
    \<and> streamCancel (srv t) = Some 1 \<and> length (handlers t) = 2
    \<and> registered (handlers t ! 0) \<and> registered (handlers t ! 1) \<and> ctx_done (handlers t ! 0)
    \<and> huri (handlers t ! 1) = u1 \<and> plays t = [(1, u1), (0, u0)]"
  using assms by (simp add: race_acts_def stream_eval live_conf_def registered_def)

lemma bw_write_small:
  "\<not> failed b \<Longrightarrow> length p \<le> avail b \<Longrightarrow> bw_write p b = (length p, b\<lparr>held := held b @ p\<rparr>)"
  by (subst bw_write.simps) simp

text \<open>One request on a recorder that had already recorded a chunk.\<close>

definition attach_acts :: "stream_act list" where
  "attach_acts = [NewRecorder 4, Feed 0 [1], Arrive demo_uri None, Handler 0 TakeCtx, Handler 0 TakeCtx]"

definition listen_acts :: "stream_act list" where
  "listen_acts = [Handler 0 TakeCtx, Handler 0 TakeCtx, Feed 0 [2]]"

lemma attach_run:
  "\<exists>s. stream_run live_conf attach_acts stream_init = Some s \<and> length (handlers s) = 1
    \<and> hpc (handlers s ! 0) = HFlush \<and> hsrc (handlers s ! 0) = 0 \<and> is_rec (src_of (outlets s ! 0))
    \<and> fed (outlets s ! 0) = [[1]]
    \<and> (\<exists>t. stream_run live_conf (Handler 0 TakeCtx # listen_acts @ [Handler 0 TakeChunk]) s = Some t
         \<and> length (handlers t) = 1 \<and> got (handlers t ! 0) = [(1, [2])] \<and> 0 < counted (handlers t ! 0)
         \<and> hpc (handlers t ! 0) = HLoop)"
  by (simp add: attach_acts_def listen_acts_def stream_eval live_conf_def bw_write_small NewWriterSize_def
      avail_def streamFlushThreshold_def sink_write_def)

section \<open>Properties\<close>

text \<open>C6: At most one stream is live: of two registered requests at least one has been told to end,
  in every interleaving of requests, disconnects and hot-swaps.\<close>

theorem stream_exclusive:
  assumes "stream_reach c s" and "i < length (handlers s)" and "j < length (handlers s)" and "i \<noteq> j"
    and "registered (handlers s ! i)" and "registered (handlers s ! j)"
  shows "ctx_done (handlers s ! i) \<or> ctx_done (handlers s ! j)"
  using owning_reach [OF assms(1)] assms(2-) unfolding owning_def by (metis option.inject)

lemma stream_exclusive_witness:
  "\<exists>t. stream_reach live_conf t \<and> registered (handlers t ! 0) \<and> registered (handlers t ! 1)
    \<and> (ctx_done (handlers t ! 0) \<or> ctx_done (handlers t ! 1))"
proof -
  obtain t where t: "stream_run live_conf (race_acts demo_uri other_uri) stream_init = Some t" "length (handlers t) = 2"
      "registered (handlers t ! 0)" "registered (handlers t ! 1)"
    using race_run [OF demo_uris] by blast
  have "stream_reach live_conf t" by (rule stream_run_reach [OF t(1) stream_zero])
  with stream_exclusive [OF this, of 0 1] t show ?thesis by auto
qed

text \<open>C7: The take-over protocol (identifiers compared under the mutex) implements the plain ownership
  protocol: for every run, whose cancel function is stored is exactly what the specification says,
  in particular a preempted handler that ends late never clears its successor's.\<close>

theorem stream_ownership_refines:
  assumes "stream_run c as stream_init = Some t"
  shows "streamCancel (srv t) = fold own_spec (own_events c as stream_init) None"
  using own_run [OF owning_reach [OF stream_zero] assms] by (simp add: stream_init_def new_server_def)

lemma stream_ownership_refines_witness:
  "\<exists>t. stream_run live_conf (race_acts demo_uri other_uri) stream_init = Some t
    \<and> streamCancel (srv t) = fold own_spec (own_events live_conf (race_acts demo_uri other_uri) stream_init) None"
  using race_run [OF demo_uris] stream_ownership_refines by blast

text \<open>C5: The body of every stream is the WAV header of its source's rate followed by the chunks it
  received, none lost, repeated or torn: what is on the connection is always a prefix of that;
  while the connection holds, at most one batch is held back, only full batches are written, and
  when the handler has left its loop everything is out.\<close>

theorem stream_body:
  assumes "stream_reach c s" and "i < length (handlers s)" and "h = handlers s ! i" and "0 < counted h"
    and "body = writeWAVHeader (SrcSampleRate (src_of (outlets s ! hsrc h))) @ concat (map snd (got h))"
  shows "prefix (on_wire h) body
    \<and> (if room (sink_of (bw h)) = None
       then counted h = length body
         \<and> (if hpc h = HLoop
            then length body \<le> length (on_wire h) + streamFlushThreshold
              \<and> list_all (\<lambda>w. streamFlushThreshold \<le> length w) (tl (writes (sink_of (bw h))))
            else on_wire h = body)
       else True)"
proof -
  have "wire_ok (writeWAVHeader (SrcSampleRate (src_of (outlets s ! hsrc h)))) h"
    using handler_at [OF flow_reach [OF assms(1)] assms(2)] assms(3,4) by (simp add: handler_ok_def)
  moreover have "body = stream_of (writeWAVHeader (SrcSampleRate (src_of (outlets s ! hsrc h)))) h"
    by (simp add: assms(5) stream_of_def)
  ultimately show ?thesis using wire_ok_body by blast
qed

lemma stream_body_witness:
  "\<exists>t. stream_reach live_conf t \<and> got (handlers t ! 0) = [(1, [2])]
    \<and> prefix (on_wire (handlers t ! 0)) (writeWAVHeader (SrcSampleRate (src_of (outlets t ! hsrc (handlers t ! 0)))) @ [2])"
proof -
  obtain s t where s: "stream_run live_conf attach_acts stream_init = Some s"
      "stream_run live_conf (Handler 0 TakeCtx # listen_acts @ [Handler 0 TakeChunk]) s = Some t"
    and t: "length (handlers t) = 1" "got (handlers t ! 0) = [(1, [2])]" "0 < counted (handlers t ! 0)"
    using attach_run by blast
  have r: "stream_reach live_conf t"
    by (rule stream_run_reach [OF s(2) stream_run_reach [OF s(1) stream_zero]])
  have "0 < length (handlers t)" using t(1) by simp
  from stream_body [OF r this refl t(3) refl] r t(2) show ?thesis by auto
qed

text \<open>A stream on the live recorder starts at the live edge: whatever had been recorded when it
  attached is never sent on it; it sends chunks recorded later, in order and each at most once.\<close>

theorem stream_live_edge:
  assumes "stream_reach c s" and "i < length (handlers s)" and "hpc (handlers s ! i) = HFlush"
    and "k = hsrc (handlers s ! i)" and "is_rec (src_of (outlets s ! k))"
    and "stream_run c (Handler i r # as) s = Some t"
  shows "subseq (map snd (got (handlers t ! i))) (drop (length (fed (outlets s ! k))) (fed (outlets t ! k)))"
proof -
  obtain u where u: "stream_step c (Handler i r) s = Some u" "stream_run c as u = Some t"
    using assms(6) by (auto split: option.splits)
  have k: "k < length (outlets s)"
    using handler_at [OF flow_reach [OF assms(1)] assms(2)] assms(3,4) by (simp add: handler_ok_def)
  have "u = step_drop_stale i (handlers s ! i) s"
    using u(1) assms(2,3) by (simp add: stream_step_def handleStream_step_def)
  moreover have "waiting (flushStalePreFill (src_of (outlets s ! k))) = []"
    using assms(5) by (simp only: source_facts) (cases "src_of (outlets s ! k)"; simp)
  ultimately have g: "hpc (handlers u ! i) = HPlay" "hsrc (handlers u ! i) = k" "i < length (handlers u)"
      "since (handlers u ! i) = length (fed (outlets s ! k))"
    using assms(2,4) k by (simp_all add: step_drop_stale_def Let_def head_pos_flush)
  have b: "begun (handlers u ! i) (handlers t ! i)" "i < length (handlers t)"
    using begun_run [OF u(2) g(3)] g(1) by auto
  then have e: "hsrc (handlers t ! i) = k" "since (handlers t ! i) = length (fed (outlets s ! k))"
      "hpc (handlers t ! i) \<notin> {HStart, HRegister, HFlush}"
    using g by (auto simp: begun_def)
  have "stream_reach c t" using stream_run_reach [OF assms(6,1)] .
  from subseq_handler [OF handler_at [OF flow_reach [OF this] b(2)] e(3)] show ?thesis by (simp add: e(1,2))
qed

lemma stream_live_edge_witness:
  "\<exists>s t. fed (outlets s ! 0) = [[1]] \<and> stream_run live_conf (Handler 0 TakeCtx # listen_acts @ [Handler 0 TakeChunk]) s = Some t
    \<and> subseq (map snd (got (handlers t ! 0))) (drop 1 (fed (outlets t ! 0)))"
proof -
  obtain s t where s: "stream_run live_conf attach_acts stream_init = Some s" "length (handlers s) = 1"
      "hpc (handlers s ! 0) = HFlush" "hsrc (handlers s ! 0) = 0" "is_rec (src_of (outlets s ! 0))" "fed (outlets s ! 0) = [[1]]"
    and t: "stream_run live_conf (Handler 0 TakeCtx # listen_acts @ [Handler 0 TakeChunk]) s = Some t"
    using attach_run by blast
  have "stream_reach live_conf s" by (rule stream_run_reach [OF s(1) stream_zero])
  from stream_live_edge [OF this _ s(3) _ _ t, of 0] s t show ?thesis by auto
qed

text \<open>C14: A preempted request can still have the last word: for any two valid URIs there is an
  interleaving after which the second request owns the stream while Soloist was last told to play
  the first one's URI, because the take-over and the play call are not one critical section.\<close>

theorem stream_play_race:
  assumes "validURI u0" and "validURI u1"
  shows "\<exists>t. stream_run live_conf (race_acts u0 u1) stream_init = Some t
    \<and> streamCancel (srv t) = Some 1 \<and> huri (handlers t ! 1) = u1 \<and> ctx_done (handlers t ! 0)
    \<and> plays t = [(1, u1), (0, u0)]"
  using race_run [OF assms] by blast

lemma stream_play_race_witness:
  "\<exists>t. stream_run live_conf (race_acts demo_uri other_uri) stream_init = Some t \<and> streamCancel (srv t) = Some 1
    \<and> huri (handlers t ! 1) = other_uri \<and> plays t = [(1, other_uri), (0, demo_uri)]"
  using stream_play_race [OF demo_uris] by blast

text \<open>The telemetry counters are exact: the number of active streams is the number of handlers
  between their header and their end, and the delivered bytes are the headers and chunk bytes
  taken by all handlers, ended ones included (modulo the width of the counter).\<close>

theorem stream_counters:
  assumes "stream_reach c s"
  shows "ActiveStreams (srv s) = (\<Sum>h \<leftarrow> handlers s. of_bool (hpc h = HLoop \<or> hpc h = HLeave))
    \<and> DeliveredBytes (srv s) = word_of_nat (\<Sum>h \<leftarrow> handlers s. counted h)"
  using counting_reach [OF assms] by (simp add: counting_def ActiveStreams_def DeliveredBytes_def streaming_def)

lemma stream_counters_witness:
  "\<exists>t. stream_reach live_conf t \<and> ActiveStreams (srv t) = 1 \<and> length (handlers t) = 1"
proof -
  obtain s t where s: "stream_run live_conf attach_acts stream_init = Some s"
      "stream_run live_conf (Handler 0 TakeCtx # listen_acts @ [Handler 0 TakeChunk]) s = Some t"
    and t: "length (handlers t) = 1" "hpc (handlers t ! 0) = HLoop"
    using attach_run by blast
  have r: "stream_reach live_conf t"
    by (rule stream_run_reach [OF s(2) stream_run_reach [OF s(1) stream_zero]])
  obtain h where h: "handlers t = [h]" using t(1) by (cases "handlers t") auto
  show ?thesis using stream_counters [OF r] r t h by auto
qed

end
