(* ===== verification/StreamLife.thy ===== *)
theory StreamLife imports StreamFlow begin

text \<open>
  The life of a \<open>/stream\<close> request of \<open>internal/server/stream.go\<close>: the phases it goes through and why it
  ends once its context is done, what becomes of the static source it was given
  (\<open>internal/server/static.go\<close>), and the loop of \<open>streamChunks\<close> as one sequential function.
\<close>

section \<open>Phases\<close>

fun phase :: "hpc \<Rightarrow> nat" where
  "phase HStart = 0" | "phase HRegister = 1" | "phase HFlush = 2" | "phase HPlay = 3" | "phase HHeader = 4"
| "phase HLoop = 5" | "phase HLeave = 6" | "phase HUnregister = 7" | "phase HClose = 8" | "phase HDone = 9"

lemma phase_inject: "phase x = phase y \<longleftrightarrow> x = y"
  by (cases x; cases y) simp_all

text \<open>The phases in the order of the handler's body and its deferred calls.\<close>

instantiation hpc :: linorder
begin

definition less_eq_hpc :: "hpc \<Rightarrow> hpc \<Rightarrow> bool" where
  "less_eq_hpc x y \<longleftrightarrow> phase x \<le> phase y"

definition less_hpc :: "hpc \<Rightarrow> hpc \<Rightarrow> bool" where
  "less_hpc x y \<longleftrightarrow> phase x < phase y"

instance
  by standard (auto simp: less_eq_hpc_def less_hpc_def phase_inject)

end

lemmas hpc_order = less_eq_hpc_def less_hpc_def

lemma phase_bound: "phase x \<le> 9"
  by (cases x) simp_all

text \<open>No step takes a handler back, and a done context stays done.\<close>

lemma phases_step:
  assumes "stream_step c a s = Some t" and "i < length (handlers s)"
  shows "i < length (handlers t) \<and> hpc (handlers s ! i) \<le> hpc (handlers t ! i)
    \<and> (ctx_done (handlers s ! i) \<longrightarrow> ctx_done (handlers t ! i))"
  using assms(1)
proof (cases rule: stream_step_cases)
  case (register j h r)
  have "length (cancel_owner w (handlers s)) = length (handlers s)
      \<and> hpc (cancel_owner w (handlers s) ! i) = hpc (handlers s ! i)
      \<and> (ctx_done (handlers s ! i) \<longrightarrow> ctx_done (cancel_owner w (handlers s) ! i))" for w
    using assms(2) by (auto simp: cancel_owner_def nth_update split: option.split)
  then show ?thesis using register assms(2) by (auto simp: step_register_def Let_def nth_list_update hpc_order)
next
  case (arrive uri r)
  then show ?thesis using assms(2) by (simp add: nth_append)
qed (use assms(2) in \<open>auto simp: nth_list_update hpc_order step_drop_stale_def step_play_def step_header_def
      step_leave_def step_unregister_def step_close_def Let_def environment_frame\<close>)

text \<open>A handler whose context is done can always go on to its end, and each such step is a move.\<close>

lemma ended_enabled:
  assumes "i < length (handlers s)" and "ctx_done (handlers s ! i)" and "hpc (handlers s ! i) \<noteq> HDone"
  shows "stream_step c (Handler i TakeCtx) s \<noteq> None"
  using assms by (cases "hpc (handlers s ! i)") (simp_all add: stream_step_def handleStream_step_def step_ctx_def Let_def)

lemma ended_moves:
  assumes "stream_step c (Handler i TakeCtx) s = Some t" and "ctx_done (handlers s ! i)"
  shows "hpc (handlers s ! i) < hpc (handlers t ! i)"
proof -
  have i: "i < length (handlers s)" using assms(1) by (simp add: stream_step_def handleStream_step_def split: if_splits)
  have "length (cancel_owner w (handlers s)) = length (handlers s)" for w
    by (simp add: cancel_owner_def split: option.split)
  then show ?thesis
    using assms i
    by (cases "hpc (handlers s ! i)")
      (auto simp: stream_step_def handleStream_step_def step_begin_def step_register_def step_drop_stale_def step_play_def
        step_header_def step_ctx_def step_leave_def step_unregister_def step_close_def Let_def hpc_order
        dest!: srcFunc_frame split: option.splits prod.splits if_splits)
qed

section \<open>Requests end\<close>

lemma phases_run:
  "stream_run c as s = Some t \<Longrightarrow> i < length (handlers s) \<Longrightarrow> ctx_done (handlers s ! i) \<Longrightarrow>
    i < length (handlers t) \<and> ctx_done (handlers t ! i)
    \<and> phase (hpc (handlers s ! i)) + length (filter (\<lambda>a. a = Handler i TakeCtx) as) \<le> phase (hpc (handlers t ! i))"
proof (induction as arbitrary: s)
  case (Cons a as)
  then obtain u where u: "stream_step c a s = Some u" "stream_run c as u = Some t" by (auto split: option.splits)
  have p: "i < length (handlers u)" "ctx_done (handlers u ! i)" "phase (hpc (handlers s ! i)) \<le> phase (hpc (handlers u ! i))"
    using phases_step [OF u(1) Cons.prems(2)] Cons.prems(3) by (simp_all add: hpc_order)
  have "a = Handler i TakeCtx \<Longrightarrow> phase (hpc (handlers s ! i)) < phase (hpc (handlers u ! i))"
    using ended_moves [of c i s u] u(1) Cons.prems(3) by (simp add: hpc_order)
  then show ?case using Cons.IH [OF u(2) p(1,2)] p(3) by (auto simp: le_less)
qed simp

section \<open>Static sources\<close>

text \<open>A static source whose generator has not been told to stop is in use by a request.\<close>

definition in_use :: "nat \<Rightarrow> handler \<Rightarrow> bool" where
  "in_use k h \<longleftrightarrow> hsrc h = k \<and> hpc h \<noteq> HStart \<and> hpc h \<noteq> HDone"

fun runs :: "source \<Rightarrow> bool" where
  "runs (SrcRec p) = False"
| "runs (SrcStatic x) = (\<not> stop_closed x)"

definition generators_used :: "stream_sys \<Rightarrow> bool" where
  "generators_used s \<longleftrightarrow>
     (\<forall>k < length (outlets s). runs (src_of (outlets s ! k)) \<longrightarrow> (\<exists>i < length (handlers s). in_use k (handlers s ! i)))"

lemma runs_ops [simp]:
  "runs (flushStalePreFill x) = runs x" "runs (snd (SrcChunks x)) = runs x" "runs (with_chan ch x) = runs x" "\<not> runs (SrcClose x)"
  by (cases x; simp add: split_beta StaticChunks_def StaticClose_def)+

lemma used_keep:
  assumes "generators_used s"
    and "\<And>k. k < length (outlets t) \<Longrightarrow> runs (src_of (outlets t ! k)) \<Longrightarrow> k < length (outlets s) \<and> runs (src_of (outlets s ! k))"
    and "\<And>k i. i < length (handlers s) \<Longrightarrow> in_use k (handlers s ! i) \<Longrightarrow> k < length (outlets t) \<Longrightarrow> runs (src_of (outlets t ! k)) \<Longrightarrow>
       i < length (handlers t) \<and> in_use k (handlers t ! i)"
  shows "generators_used t"
  using assms unfolding generators_used_def by meson

lemma runs_set_src:
  assumes "runs y \<Longrightarrow> runs (src_of (outlets s ! j))" and "k < length (outlets s)" and "runs (src_of (outlets (set_src j y s) ! k))"
  shows "runs (src_of (outlets s ! k))"
  using assms by (cases "k = j") (auto simp: set_src_def)

lemma used_step:
  assumes "generators_used s" and "stream_step c a s = Some t"
  shows "generators_used t"
  using assms(2)
proof (cases rule: stream_step_cases)
  case (accept i h r k u)
  have old: "in_use j (handlers t ! m)" if "m < length (handlers s)" "in_use j (handlers s ! m)" for j m
    using that accept by (auto simp: in_use_def nth_list_update)
  have new: "in_use k (handlers t ! i)" and len: "length (handlers t) = length (handlers s)"
    using accept by (simp_all add: in_use_def)
  have o: "j = k \<or> j < length (outlets s) \<and> outlets t ! j = outlets s ! j" if "j < length (outlets t)" for j
    using accept(6,7) that by (auto simp: srcFunc_def nth_append split: option.splits if_splits)
  show ?thesis
    unfolding generators_used_def
  proof (intro allI impI)
    fix j assume j: "j < length (outlets t)" "runs (src_of (outlets t ! j))"
    show "\<exists>m < length (handlers t). in_use j (handlers t ! m)"
    proof (cases "j = k")
      case True
      then show ?thesis using new len accept(2) by auto
    next
      case False
      then obtain m where "m < length (handlers s)" "in_use j (handlers s ! m)"
        using o [OF j(1)] j(2) assms(1) by (auto simp: generators_used_def)
      then show ?thesis using old len by auto
    qed
  qed
next
  case (register i h r)
  have "length (cancel_owner w (handlers s)) = length (handlers s)
      \<and> (m < length (handlers s) \<longrightarrow> in_use k (cancel_owner w (handlers s) ! m) = in_use k (handlers s ! m))" for w m k
    by (auto simp: cancel_owner_def in_use_def nth_update split: option.split)
  then show ?thesis
    using register
    by (intro used_keep [OF assms(1)]) (auto simp: step_register_def Let_def nth_list_update, auto simp: in_use_def)
next
  case (drop_stale i h r)
  then show ?thesis
    by (intro used_keep [OF assms(1)])
      (auto simp: step_drop_stale_def Let_def nth_list_update in_use_def dest!: runs_set_src [rotated])
next
  case (header i h r)
  then show ?thesis
    by (intro used_keep [OF assms(1)])
      (auto simp: step_header_def Let_def nth_list_update in_use_def dest!: runs_set_src [rotated])
next
  case (chunk i h r ch x ch' n b)
  then show ?thesis
    by (intro used_keep [OF assms(1)])
      (auto simp: nth_list_update in_use_def dest!: runs_set_src [rotated])
next
  case (close i h r)
  then show ?thesis
    by (intro used_keep [OF assms(1)])
      (auto simp: step_close_def nth_update in_use_def set_src_def split: if_splits)
next
  case (arrive uri r)
  then show ?thesis by (intro used_keep [OF assms(1)]) (auto simp: nth_append)
next
  case (recorder n)
  then show ?thesis by (intro used_keep [OF assms(1)]) (auto simp: nth_append less_Suc_eq)
next
  case (feed k x)
  then show ?thesis
    by (intro used_keep [OF assms(1)])
      (auto simp: feed_def set_src_def nth_list_update split: if_splits source.splits option.splits)
next
  case (generate k)
  then show ?thesis
    by (intro used_keep [OF assms(1)])
      (auto simp: generate_def gen_send_def nth_list_update split: if_splits source.splits option.splits)
next
  case (generator_end k)
  then show ?thesis
    by (intro used_keep [OF assms(1)])
      (auto simp: generator_end_def gen_end_def set_src_def nth_list_update split: if_splits source.splits option.splits)
qed (auto intro!: used_keep [OF assms(1)] simp: nth_list_update in_use_def step_play_def step_leave_def step_unregister_def)

lemma used_reach: "stream_reach c s \<Longrightarrow> generators_used s"
proof (induction rule: stream_reach.induct)
  case stream_zero
  show ?case by (simp add: generators_used_def stream_init_def)
qed (rule used_step)

section \<open>The loop as a function\<close>

text \<open>\<open>streamChunks\<close> on the outcomes of its \<open>select\<close>: the writer, the counted bytes, and whether it has
  returned.\<close>

datatype select_out = SelDone | SelChunk chunk | SelClosed

fun streamChunks :: "select_out list \<Rightarrow> bufw \<Rightarrow> nat \<Rightarrow> bufw \<times> nat \<times> bool" where
  "streamChunks [] b d = (b, d, False)"
| "streamChunks (SelDone # xs) b d = (bw_flush b, d, True)"
| "streamChunks (SelClosed # xs) b d = (bw_flush b, d, True)"
| "streamChunks (SelChunk c # xs) b d = (case bw_write c b of (n, b') \<Rightarrow> streamChunks xs b' (d + n))"

lemma streamChunks_append:
  "streamChunks (map SelChunk cs @ xs) b d =
    (case streamChunks (map SelChunk cs) b d of (b', d', fin) \<Rightarrow> streamChunks xs b' d')"
  by (induction cs arbitrary: b d) (auto split: prod.split)

text \<open>What the loop of a handler has seen so far.\<close>

definition outcomes :: "handler \<Rightarrow> select_out list" where
  "outcomes h = map (SelChunk \<circ> snd) (got h) @ (if hpc h = HLoop then [] else [SelDone])"

definition after_header :: "nat option \<Rightarrow> u8 list \<Rightarrow> bufw" where
  "after_header r header = NewWriterSize (snd (snd (sink_write header \<lparr>writes = [], room = r\<rparr>))) streamFlushThreshold"

definition loop_ok :: "outlet list \<Rightarrow> handler \<Rightarrow> bool" where
  "loop_ok xs h \<longleftrightarrow>
     0 < counted h \<longrightarrow>
       (\<exists>r header. header = writeWAVHeader (SrcSampleRate (src_of (xs ! hsrc h)))
          \<and> streamChunks (outcomes h) (after_header r header) (length header) = (bw h, counted h, hpc h \<noteq> HLoop))"

lemma loop_ok_chunk:
  assumes "loop_ok xs h" and "hpc h = HLoop" and "0 < counted h" and "bw_write x (bw h) = (n, b)"
  shows "loop_ok xs (h\<lparr>bw := b, got := got h @ [(p, x)], counted := counted h + n\<rparr>)"
proof -
  obtain r header where h: "header = writeWAVHeader (SrcSampleRate (src_of (xs ! hsrc h)))"
      "streamChunks (map SelChunk (map snd (got h))) (after_header r header) (length header) = (bw h, counted h, False)"
    using assms(1-3) by (auto simp: loop_ok_def outcomes_def)
  have "streamChunks (map SelChunk (map snd (got h)) @ [SelChunk x]) (after_header r header) (length header) = (b, counted h + n, False)"
    unfolding streamChunks_append h(2) using assms(4) by simp
  then show ?thesis using h(1) assms(2) by (auto simp: loop_ok_def outcomes_def)
qed

lemma loop_ok_finish:
  assumes "loop_ok xs h" and "hpc h = HLoop"
  shows "loop_ok xs (h\<lparr>bw := bw_flush (bw h), hpc := HLeave\<rparr>)"
proof (cases "0 < counted h")
  case True
  then obtain r header where h: "header = writeWAVHeader (SrcSampleRate (src_of (xs ! hsrc h)))"
      "streamChunks (map SelChunk (map snd (got h))) (after_header r header) (length header) = (bw h, counted h, False)"
    using assms by (auto simp: loop_ok_def outcomes_def)
  have "streamChunks (map SelChunk (map snd (got h)) @ [SelDone]) (after_header r header) (length header) = (bw_flush (bw h), counted h, True)"
    unfolding streamChunks_append h(2) by simp
  then show ?thesis using h(1) by (auto simp: loop_ok_def outcomes_def)
next
  case False
  then show ?thesis by (simp add: loop_ok_def)
qed

text \<open>Steps that touch neither the connection nor the chunks, and sources that keep their rate.\<close>

lemma loop_ok_same:
  assumes "loop_ok xs h" and "bw g = bw h" "got g = got h" "counted g = counted h" "hsrc g = hsrc h"
    and "hpc g = HLoop \<longleftrightarrow> hpc h = HLoop"
  shows "loop_ok xs g"
  using assms by (simp add: loop_ok_def outcomes_def)

lemma loop_ok_cancel: "loop_ok xs (h\<lparr>ctx_done := True\<rparr>) = loop_ok xs h"
  by (simp add: loop_ok_def outcomes_def)

lemma loop_ok_grow:
  assumes "loop_ok xs h" and "handler_ok xs h" and "outlets_grow xs ys"
  shows "loop_ok ys h"
  using assms by (auto simp: loop_ok_def outlets_grow_def outlet_le_def handler_ok_def)

lemma loop_update:
  assumes "list_all (loop_ok (outlets s)) (handlers s)" and "flow_ok s" and "outlets_grow (outlets s) (outlets t)"
    and "handlers t = (handlers s)[i := g]" and "i < length (handlers s) \<Longrightarrow> loop_ok (outlets t) g"
  shows "list_all (loop_ok (outlets t)) (handlers t)"
proof -
  have "loop_ok (outlets t) (handlers s ! j)" if "j < length (handlers s)" for j
    using loop_ok_grow [OF _ handler_at [OF assms(2) that] assms(3)] assms(1) that by (simp add: list_all_length)
  then show ?thesis
    using assms(4,5) by (cases "i < length (handlers s)") (auto simp: list_all_length nth_list_update list_update_beyond not_less)
qed

lemma loop_environment:
  assumes "list_all (loop_ok (outlets s)) (handlers s)" and "flow_ok s" and "outlets_grow (outlets s) (outlets t)"
    and "handlers t = handlers s"
  shows "list_all (loop_ok (outlets t)) (handlers t)"
  using loop_update [OF assms(1-3), of "length (handlers s)" undefined] assms(4) by (simp add: list_update_beyond)

lemma stream_loop_step:
  assumes "list_all (loop_ok (outlets s)) (handlers s)" and "flow_ok s" and "stream_step c a s = Some t"
  shows "list_all (loop_ok (outlets t)) (handlers t)"
proof -
  have ok: "list_all outlet_ok (outlets s)" using assms(2) by (simp add: flow_ok_def)
  note grow = outlets_step [OF ok assms(3)]
  note H = handler_at [OF assms(2)]
  have L: "loop_ok (outlets t) (handlers s ! i)" if "i < length (handlers s)" for i
    using loop_ok_grow [OF _ H [OF that] grow] assms(1) that by (simp add: list_all_length)
  note upd = loop_update [OF assms(1,2) grow] 
  have env: "list_all (loop_ok (outlets t)) (handlers s)" if "handlers t = handlers s"
    using loop_environment [OF assms(1,2) grow that] that by simp
  have fresh: "loop_ok xs g" if "counted g = 0" for xs g using that by (simp add: loop_ok_def)
  have zero: "counted (handlers s ! i) = 0" if "i < length (handlers s)" "before_header (handlers s ! i)" for i
    using H [OF that(1)] that(2) by (simp add: handler_ok_def)
  show ?thesis
    using assms(3)
  proof (cases rule: stream_step_cases)
    case (reject i h r rep)
    then show ?thesis using upd [of i] fresh zero by (simp add: before_header_def)
  next
    case (accept i h r k u)
    then show ?thesis using upd [of i] fresh zero by (simp add: before_header_def)
  next
    case (register i h r)
    let ?ks = "cancel_owner (streamCancel (srv s)) (handlers s)"
    have o: "outlets t = outlets s" "handlers t = ?ks[i := h\<lparr>myID := streamID (srv s) + 1, hpc := HFlush\<rparr>]"
      by (simp_all add: register(5) step_register_def Let_def)
    have "list_all (loop_ok (outlets t)) ?ks"
      using assms(1) by (auto simp: o(1) list_all_length cancel_owner_def nth_update loop_ok_cancel split: option.split)
    then show ?thesis
      using fresh zero [OF register(2)] register(3,4) by (auto simp: o(2) list_all_length nth_update before_header_def)
  next
    case (drop_stale i h r)
    then show ?thesis
      using upd [of i] fresh zero [OF drop_stale(2)] by (simp add: step_drop_stale_def Let_def before_header_def)
  next
    case (play i h r)
    then show ?thesis using upd [of i] fresh zero [OF play(2)] by (simp add: step_play_def before_header_def)
  next
    case (header i h r)
    have hk: "hsrc h < length (outlets s)" "counted h = 0" "got h = []"
        and "\<exists>q. sink_of (bw h) = \<lparr>writes = [], room = q\<rparr>"
      using H [OF header(2)] header(3,4) by (auto simp: handler_ok_def before_header_def)
    then obtain q where q: "sink_of (bw h) = \<lparr>writes = [], room = q\<rparr>" by blast
    have rate: "SrcSampleRate (src_of (outlets t ! hsrc h)) = SrcSampleRate (src_of (outlets s ! hsrc h))"
      using grow hk(1) by (auto simp: outlets_grow_def outlet_le_def)
    have "loop_ok (outlets t) (h\<lparr>hreply := rep, bw := after_header q (writeWAVHeader (SrcSampleRate (src_of (outlets s ! hsrc h)))),
        counted := 44, hpc := HLoop\<rparr>)" for rep
      using hk rate by (auto simp: loop_ok_def outcomes_def)
    then show ?thesis
      using upd [of i] header(5) q by (simp add: step_header_def Let_def after_header_def)
  next
    case (finish i h r)
    then show ?thesis using upd [of i] loop_ok_finish [OF L [OF finish(2)]] by simp
  next
    case (chunk i h r ch x ch' n b)
    have "0 < counted h" using H [OF chunk(2)] chunk(3,4) by (auto simp: handler_ok_def before_header_def)
    then show ?thesis using upd [of i] loop_ok_chunk [OF L [OF chunk(2)]] chunk by simp
  next
    case (leave i h r)
    have "loop_ok (outlets t) (h\<lparr>hpc := HUnregister\<rparr>)"
      by (rule loop_ok_same [OF L [OF leave(2)]]) (use leave(3,4) in simp_all)
    then show ?thesis using upd [of i] leave(5) by (simp add: step_leave_def)
  next
    case (unregister i h r)
    have "loop_ok (outlets t) (h\<lparr>hpc := HClose\<rparr>)"
      by (rule loop_ok_same [OF L [OF unregister(2)]]) (use unregister(3,4) in simp_all)
    moreover have "handlers t = (handlers s)[i := h\<lparr>hpc := HClose\<rparr>]"
      by (simp add: unregister(5) step_unregister_def)
    ultimately show ?thesis using upd [of i] by blast
  next
    case (close i h r)
    have "loop_ok (outlets t) (h\<lparr>ctx_done := True, hpc := HDone\<rparr>)"
      by (rule loop_ok_same [OF L [OF close(2)]]) (use close(3,4) in simp_all)
    then show ?thesis using upd [of i] close(5) by (simp add: step_close_def)
  next
    case (arrive uri r)
    then show ?thesis using assms(1) fresh by (simp add: new_handler_def)
  next
    case (disconnect i)
    have "loop_ok (outlets t) ((handlers s ! i)\<lparr>ctx_done := True\<rparr>)"
      by (rule loop_ok_same [OF L [OF disconnect(2)]]) simp_all
    then show ?thesis using upd [of i] disconnect(3) by simp
  qed (use env assms(1) in \<open>auto simp: environment_frame\<close>)
qed

lemma stream_loop_reach: "stream_reach c s \<Longrightarrow> list_all (loop_ok (outlets s)) (handlers s)"
proof (induction rule: stream_reach.induct)
  case stream_zero
  show ?case by (simp add: stream_init_def)
next
  case (stream_next s a t)
  then show ?case using stream_loop_step flow_reach by blast
qed

section \<open>Properties\<close>


text \<open>C10: No generator outlives its request: in every reachable state a static source whose generator
  has not been told to stop belongs to a request that is still being served, and one that has
  been told can end in its next turn.\<close>

theorem static_source_released:
  assumes "stream_reach c s" and "k < length (outlets s)" and "src_of (outlets s ! k) = SrcStatic x"
  shows "(\<not> stop_closed x \<longrightarrow>
      (\<exists>i < length (handlers s). hsrc (handlers s ! i) = k \<and> hpc (handlers s ! i) \<notin> {HStart, HDone}))
    \<and> (stop_closed x \<longrightarrow> gen_live x \<longrightarrow> stream_step c (GenEnd k) s \<noteq> None)"
  using used_reach [OF assms(1)] assms(2,3)
  by (auto simp: generators_used_def in_use_def stream_step_def generator_end_def gen_end_def)


section \<open>Concrete runs\<close>


definition tone_conf :: stream_conf where
  "tone_conf = \<lparr>static_rate = Some 44100, tone = (\<lambda>i. 0)\<rparr>"

lemma tone_run:
  "\<exists>t. stream_run tone_conf [Arrive demo_uri None, Handler 0 TakeCtx] stream_init = Some t
    \<and> length (outlets t) = 1 \<and> src_of (outlets t ! 0) = SrcStatic (NewStaticSource (\<lambda>i. 0) 44100)"
  by (simp add: stream_step_def handleStream_step_def step_begin_def srcFunc_def set_h_def stream_init_def new_handler_def
      Let_def tone_conf_def)

lemma static_source_released_witness:
  "\<exists>t. stream_run tone_conf [Arrive demo_uri None, Handler 0 TakeCtx] stream_init = Some t
    \<and> (\<exists>i < length (handlers t). hsrc (handlers t ! i) = 0 \<and> hpc (handlers t ! i) \<notin> {HStart, HDone})"
proof -
  obtain t where t: "stream_run tone_conf [Arrive demo_uri None, Handler 0 TakeCtx] stream_init = Some t"
      "length (outlets t) = 1" "src_of (outlets t ! 0) = SrcStatic (NewStaticSource (\<lambda>i. 0) 44100)"
    using tone_run by blast
  have r: "stream_reach tone_conf t" by (rule stream_run_reach [OF t(1) stream_zero])
  have "\<not> stop_closed (NewStaticSource (\<lambda>i. 0) 44100)" by (simp add: NewStaticSource_def Let_def)
  then show ?thesis using static_source_released [OF r _ t(3)] t(1,2) by auto
qed


section \<open>A preempted request may still receive\<close>

definition steal_acts :: "string \<Rightarrow> string \<Rightarrow> chunk \<Rightarrow> stream_act list" where
  "steal_acts u0 u1 x =
    [NewRecorder 4, Arrive u0 None, Arrive u1 None,
     Handler 0 TakeCtx, Handler 0 TakeCtx, Handler 0 TakeCtx, Handler 0 TakeCtx, Handler 0 TakeCtx,
     Handler 1 TakeCtx, Handler 1 TakeCtx, Handler 1 TakeCtx, Handler 1 TakeCtx, Handler 1 TakeCtx,
     Feed 0 x, Handler 0 TakeChunk]"

text \<open>C15: The \<open>select\<close> of a stream takes any ready case, so a preempted request whose context is done may
  still take a chunk: for any two valid URIs and any chunk there is a schedule in which the second
  request took the stream over, the chunk was recorded after that, and the first request receives
  it, so that its successor never does.\<close>

theorem stream_preempted_steals:
  assumes "validURI u0" and "validURI u1"
  shows "\<exists>t. stream_run live_conf (steal_acts u0 u1 x) stream_init = Some t
    \<and> streamCancel (srv t) = Some 1 \<and> hpc (handlers t ! 1) = HLoop \<and> hsrc (handlers t ! 1) = 0 \<and> ctx_done (handlers t ! 0)
    \<and> fed (outlets t ! 0) = [x] \<and> got (handlers t ! 0) = [(0, x)]
    \<and> got (handlers t ! 1) = [] \<and> waiting (src_of (outlets t ! 0)) = []"
  using assms
  by (simp add: steal_acts_def stream_eval live_conf_def NewWriterSize_def streamFlushThreshold_def split: prod.split)

lemma stream_preempted_steals_witness:
  "\<exists>t. stream_run live_conf (steal_acts demo_uri other_uri [7]) stream_init = Some t
    \<and> streamCancel (srv t) = Some 1 \<and> got (handlers t ! 0) = [(0, [7])] \<and> got (handlers t ! 1) = []"
  using stream_preempted_steals [OF demo_uris, of "[7]"] by blast

end
