(* ===== verification/PlayPath.thy ===== *)
theory PlayPath imports Control StreamLife begin

text \<open>
  From a \<open>/stream\<close> request to Soloist: the concurrent requests of \<open>internal/server/stream.go\<close> and the
  supervisor of \<open>internal/soloist/supervisor.go\<close> composed at the call they share, \<open>CommandConnector.Play\<close>,
  which \<open>main\<close> hands to the server as its \<open>play\<close> function. The commands of the listener interleave.
\<close>

section \<open>The composed system\<close>

record play_sys =
  pstr :: stream_sys
  psup :: sup_sys

text \<open>The listener sends \<open>play\<close> only with an empty URI.\<close>

fun from_listener :: "sup_act \<Rightarrow> bool" where
  "from_listener (EnvCommand (CmdPlay u) e) = (u = [])"
| "from_listener a = True"

datatype play_act = PStream stream_act goerror | PSup sup_act

text \<open>The request whose \<open>play\<close> call an action is, with its URI.\<close>

definition calls_play :: "stream_act \<Rightarrow> stream_sys \<Rightarrow> string option" where
  "calls_play a s =
    (case a of
       Handler i r \<Rightarrow>
         (if i < length (handlers s) \<and> hpc (handlers s ! i) = HPlay then Some (huri (handlers s ! i)) else None)
     | _ \<Rightarrow> None)"

definition play_step :: "stream_conf \<Rightarrow> SupConfig \<Rightarrow> play_act \<Rightarrow> play_sys \<Rightarrow> play_sys option" where
  "play_step sc c a s =
    (case a of
       PSup b \<Rightarrow>
         (if from_listener b then map_option (\<lambda>u. s\<lparr>psup := u\<rparr>) (sup_step c b (psup s)) else None)
     | PStream b ans \<Rightarrow>
         (case stream_step sc b (pstr s) of
            None \<Rightarrow> None
          | Some t \<Rightarrow>
             (case calls_play b (pstr s) of
                None \<Rightarrow> Some (s\<lparr>pstr := t\<rparr>)
              | Some uri \<Rightarrow> map_option (\<lambda>u. \<lparr>pstr = t, psup = u\<rparr>) (sup_step c (EnvCommand (CmdPlay uri) ans) (psup s)))))"

fun play_run :: "stream_conf \<Rightarrow> SupConfig \<Rightarrow> play_act list \<Rightarrow> play_sys \<Rightarrow> play_sys option" where
  "play_run sc c [] s = Some s"
| "play_run sc c (a # as) s = (case play_step sc c a s of None \<Rightarrow> None | Some t \<Rightarrow> play_run sc c as t)"

inductive play_reach :: "stream_conf \<Rightarrow> SupConfig \<Rightarrow> fs \<Rightarrow> play_sys \<Rightarrow> bool" for sc c f where
  play_zero: "play_reach sc c f \<lparr>pstr = stream_init, psup = sup_init c f\<rparr>"
| play_next: "play_reach sc c f s \<Longrightarrow> play_step sc c a s = Some t \<Longrightarrow> play_reach sc c f t"

lemma play_run_reach: "play_run sc c as s = Some t \<Longrightarrow> play_reach sc c f s \<Longrightarrow> play_reach sc c f t"
  by (induction as arbitrary: s) (auto split: option.splits intro: play_reach.intros)

section \<open>What Soloist is told to play\<close>

definition heard_uri :: "message \<Rightarrow> string option" where
  "heard_uri m =
    (case soloist_reads m of
       Some (cmd, Some u) \<Rightarrow> (if cmd = ''play'' \<and> u \<noteq> [] then Some u else None)
     | _ \<Rightarrow> None)"

definition heard_on :: "('c \<times> message) list \<Rightarrow> string list" where
  "heard_on w = concat (map (\<lambda>(k, m). case heard_uri m of None \<Rightarrow> [] | Some u \<Rightarrow> [u]) w)"

definition heard :: "play_sys \<Rightarrow> string list" where
  "heard s = heard_on (wire (psup s))"

lemma heard_append [simp]: "heard_on (v @ w) = heard_on v @ heard_on w"
  by (simp add: heard_on_def)

lemma heard_on_simps [simp]:
  "heard_on [] = []" "heard_on ((k, m) # w) = (case heard_uri m of None \<Rightarrow> [] | Some u \<Rightarrow> [u]) @ heard_on w"
  by (simp_all add: heard_on_def)

lemma heard_command:
  "heard_uri (encode_command (CmdPlay [])) = None" "heard_uri (encode_command CmdPause) = None"
  "heard_uri (encode_command CmdSkipNext) = None" "heard_uri (encode_command CmdSkipPrev) = None"
  unfolding heard_uri_def reads_encoded by (simp_all add: coerce_names)

lemma heard_play:
  assumes "validURI u"
  shows "heard_uri (encode_command (CmdPlay u)) = Some u"
proof -
  have "coerce_utf8 u = u" using json_plain_id [OF validURI_plain [OF assms]] by simp
  moreover have "u \<noteq> []" using assms by (auto simp: validURI_iff)
  ultimately show ?thesis unfolding heard_uri_def reads_encoded by simp
qed

lemma supervisor_names:
  "coerce_utf8 ''activate'' = ''activate''" "coerce_utf8 ''set_volume'' = ''set_volume''"
  "json_string ''uri'' \<noteq> json_string ''volume''"
  by code_simp+

lemma heard_supervisor: "heard_uri activateCommand = None" "heard_uri (json_object (volumeCommand v)) = None"
proof -
  have "json_members activateCommand =
      Some [(json_string ''type'', json_string ''command''), (json_string ''command'', json_string ''activate'')]"
    by code_simp
  then show "heard_uri activateCommand = None"
    by (simp add: heard_uri_def soloist_reads_def member_names member_names [symmetric] unmarshal_json_string supervisor_names)
  show "heard_uri (json_object (volumeCommand v)) = None"
    by (simp add: heard_uri_def soloist_reads_def volume_members member_names member_names [symmetric]
        unmarshal_json_string supervisor_names)
qed

section \<open>The steps\<close>

text \<open>Nothing but the command of a request makes Soloist hear a URI.\<close>

lemma heard_write:
  assumes "sup_write c k ans m s = (e, t)" and "heard_uri m = None"
  shows "heard_on (wire t) = heard_on (wire s)"
  using assms by (auto simp: sup_write_def ConnWrite_def Let_def split: if_splits option.splits)

lemma heard_sup_step:
  assumes "sup_step c a s = Some t" and "from_listener a"
  shows "heard_on (wire t) = heard_on (wire s)"
proof (cases a)
  case (ActActivate ans)
  obtain url k where pc: "spc s = SActivate url k"
    using assms(1) by (auto simp: ActActivate sup_step_def step_session_def split: sup_pc.splits)
  obtain e u where u: "sup_write c k ans activateCommand s = (e, u)" by fastforce
  then show ?thesis
    using assms(1) heard_write [OF u heard_supervisor(1)]
    by (auto simp: ActActivate sup_step_def step_session_def pc split: option.splits)
next
  case (ActSetVolume ans)
  obtain url k where pc: "spc s = SVolume url k"
    using assms(1) by (auto simp: ActSetVolume sup_step_def step_session_def split: sup_pc.splits)
  obtain e u where u: "sup_write c k ans (json_object (volumeCommand (SupVolume c))) s = (e, u)" by fastforce
  then show ?thesis
    using assms(1) heard_write [OF u heard_supervisor(2)]
    by (auto simp: ActSetVolume sup_step_def step_session_def pc split: if_splits)
next
  case (EnvCommand cmd ans)
  have "heard_uri (encode_command cmd) = None" using assms(2) EnvCommand heard_command by (cases cmd) auto
  then show ?thesis
    using assms(1)
    by (auto simp: EnvCommand sup_step_def step_env_def send_write ConnWrite_def split: if_splits option.splits)
qed (use assms in \<open>auto simp: sup_step_def step_enter_def step_spawn_def step_wait_def step_loop_def step_dial_def
      step_session_def step_after_def step_env_def returns_def take_exit_def sup_kill_def Let_def
      split: sup_pc.splits if_splits option.splits\<close>)

lemma heard_play_step:
  assumes "sup_step c (EnvCommand (CmdPlay u) ans) s = Some t" and "validURI u"
  shows "heard_on (wire t) = heard_on (wire s) @ (if conn (cmds s) = None then [] else [u])"
  using assms(1) heard_play [OF assms(2)]
  by (auto simp: sup_step_def step_env_def send_write ConnWrite_def simp del: send_command.simps encode_command.simps
      split: if_splits option.splits)

text \<open>The play calls of the requests, and what they are checked for.\<close>

lemma plays_step:
  assumes "stream_step sc a s = Some t"
  shows "plays t = plays s \<and> calls_play a s = None
    \<or> (\<exists>i u. calls_play a s = Some u \<and> plays t = plays s @ [(i, u)] \<and> i < length (handlers s) \<and> u = huri (handlers s ! i)
          \<and> hpc (handlers s ! i) = HPlay)"
  using assms
  by (cases rule: stream_step_cases)
    (auto simp: calls_play_def step_register_def step_drop_stale_def step_play_def step_header_def step_leave_def
      step_unregister_def step_close_def SetUnhealthy_def Let_def dest: environment_frame)

definition uri_checked :: "handler \<Rightarrow> bool" where
  "uri_checked h \<longleftrightarrow> (hpc h = HStart \<or> hpc h = HDone \<or> validURI (huri h))"

definition uris_checked :: "stream_sys \<Rightarrow> bool" where
  "uris_checked s \<longleftrightarrow>
     list_all uri_checked (handlers s) \<and> list_all (validURI \<circ> snd) (plays s)"

lemma checked_cancel: "list_all uri_checked hs \<Longrightarrow> list_all uri_checked (cancel_owner w hs)"
  by (auto simp: cancel_owner_def uri_checked_def list_all_length nth_update split: option.split)

lemma checked_update:
  "list_all P hs \<Longrightarrow> P h \<Longrightarrow> list_all P (hs[i := h])"
  by (auto simp: list_all_length nth_update)

lemma checked_step:
  assumes "uris_checked s" and "stream_step sc a s = Some t"
  shows "uris_checked t"
proof -
  have v: "validURI (huri (handlers s ! i))" if "i < length (handlers s)" "hpc (handlers s ! i) \<notin> {HStart, HDone}" for i
    using assms(1) that by (auto simp: uris_checked_def list_all_length uri_checked_def)
  have p: "list_all (validURI \<circ> snd) (plays t)"
    using plays_step [OF assms(2)] assms(1) v by (auto simp: uris_checked_def)
  have "list_all uri_checked (handlers t)"
    using assms(2)
  proof (cases rule: stream_step_cases)
    case (register i h r)
    have "validURI (huri h)" using v [of i] register(2-4) by simp
    then show ?thesis
      using assms(1) by (auto simp: register(5) step_register_def Let_def uris_checked_def uri_checked_def [of "h\<lparr>myID := k, hpc := j\<rparr>" for k j] intro!: checked_update checked_cancel)
  next
    case (disconnect i)
    have "uri_checked ((handlers s ! i)\<lparr>ctx_done := True\<rparr>)" using v disconnect(2) by (auto simp: uri_checked_def)
    then show ?thesis using assms(1) disconnect(3) by (auto simp: uris_checked_def intro!: checked_update)
  next
    case (arrive uri r)
    then show ?thesis using assms(1) by (simp add: uris_checked_def uri_checked_def new_handler_def)
  qed (use assms(1) v in \<open>auto simp: uris_checked_def uri_checked_def step_drop_stale_def step_play_def step_header_def step_leave_def
        step_unregister_def step_close_def SetUnhealthy_def Let_def intro!: checked_update dest: environment_frame\<close>)
  then show ?thesis using p by (simp add: uris_checked_def)
qed

section \<open>Reachable states\<close>

lemma play_step_cases:
  assumes "play_step sc c a s = Some t"
  obtains (sup) b where "a = PSup b" "from_listener b" "sup_step c b (psup s) = Some (psup t)" "pstr t = pstr s"
  | (quiet) b e where "a = PStream b e" "stream_step sc b (pstr s) = Some (pstr t)" "calls_play b (pstr s) = None" "psup t = psup s"
  | (play) b e u where "a = PStream b e" "stream_step sc b (pstr s) = Some (pstr t)" "calls_play b (pstr s) = Some u"
      "sup_step c (EnvCommand (CmdPlay u) e) (psup s) = Some (psup t)"
proof (cases a)
  case (PStream b e)
  obtain v where v: "stream_step sc b (pstr s) = Some v"
    using assms by (auto simp: PStream play_step_def split: option.splits)
  show ?thesis
  proof (cases "calls_play b (pstr s)")
    case None
    then show ?thesis using assms v by (intro quiet [OF PStream]) (auto simp: PStream play_step_def)
  next
    case (Some u)
    then show ?thesis using assms v by (intro play [OF PStream]) (auto simp: PStream play_step_def)
  qed
next
  case (PSup b)
  then show ?thesis using assms by (intro sup [OF PSup]) (auto simp: play_step_def split: if_splits)
qed

lemma play_reach_parts:
  assumes "play_reach sc c f s"
  shows "sup_reach c f (psup s)" and "stream_reach sc (pstr s)" and "uris_checked (pstr s)"
    and "subseq (heard s) (map snd (plays (pstr s)))"
  using assms
proof (induction rule: play_reach.induct)
  case play_zero
  { case 1 show ?case by (simp add: sup_start) }
  { case 2 show ?case by (simp add: stream_zero) }
  { case 3 show ?case by (simp add: uris_checked_def stream_init_def) }
  { case 4 show ?case by (simp add: heard_def sup_init_def stream_init_def) }
next
  case (play_next s a t)
  note step = play_next.hyps(2)
  { case 1
    show ?case using step
      by (cases rule: play_step_cases) (use play_next.IH(1) in \<open>auto intro: sup_next\<close>) }
  { case 2
    show ?case using step
      by (cases rule: play_step_cases) (use play_next.IH(2) in \<open>auto intro: stream_next\<close>) }
  { case 3
    show ?case using step
      by (cases rule: play_step_cases) (use play_next.IH(3) in \<open>auto intro: checked_step\<close>) }
  { case 4
    show ?case using step
    proof (cases rule: play_step_cases)
      case (sup b)
      then show ?thesis using play_next.IH(4) heard_sup_step [OF sup(3,2)] by (simp add: heard_def)
    next
      case (quiet b e)
      then have "plays (pstr t) = plays (pstr s)" using plays_step [OF quiet(2)] by auto
      then show ?thesis using play_next.IH(4) quiet(4) by (simp add: heard_def)
    next
      case (play b e u)
      then obtain i where i: "plays (pstr t) = plays (pstr s) @ [(i, u)]" "validURI u"
        using plays_step [OF play(2)] checked_step [OF play_next.IH(3) play(2)] by (auto simp: uris_checked_def)
      have "subseq (heard t) (heard s @ [u])" using heard_play_step [OF play(4) i(2)] by (simp add: heard_def subseq_append_right)
      moreover have "subseq (heard s @ [u]) (map snd (plays (pstr s)) @ [u])"
        using play_next.IH(4) by (simp add: list_emb_append_mono)
      ultimately show ?thesis using i(1) by (auto intro: subseq_order.trans)
    qed }
qed

section \<open>Property\<close>


section \<open>A concrete run\<close>

lemma play_run_append:
  "play_run sc c (as @ bs) s = (case play_run sc c as s of None \<Rightarrow> None | Some t \<Rightarrow> play_run sc c bs t)"
  by (induction as arbitrary: s) (auto split: option.splits)

lemma sup_run_lift:
  "sup_run c as u = Some v \<Longrightarrow> list_all from_listener as \<Longrightarrow>
    play_run sc c (map PSup as) \<lparr>pstr = x, psup = u\<rparr> = Some \<lparr>pstr = x, psup = v\<rparr>"
  by (induction as arbitrary: u) (auto simp: play_step_def split: option.splits)

definition up_acts :: "sup_act list" where
  "up_acts = [ActSpawn None, ActWaitTick, ActLoopDial, ActDialFail, ActDialWake TimerFired, ActLoopDial,
     ActDialOk, ActActivate None, ActSetVolume None]"

definition request_acts :: "play_act list" where
  "request_acts = [PStream (NewRecorder 4) None, PStream (Arrive demo_uri None) None, PStream (Handler 0 TakeCtx) None,
     PStream (Handler 0 TakeCtx) None, PStream (Handler 0 TakeCtx) None]"

lemma request_run:
  "\<exists>t. play_run live_conf c request_acts \<lparr>pstr = stream_init, psup = v\<rparr> = Some t \<and> psup t = v
    \<and> length (handlers (pstr t)) = 1 \<and> hpc (handlers (pstr t) ! 0) = HPlay \<and> huri (handlers (pstr t) ! 0) = demo_uri"
  by (simp add: request_acts_def play_step_def calls_play_def stream_eval live_conf_def)


end
