(* ===== verification/ConfigModel.thy ===== *)
theory ConfigModel imports GoStrings begin

text \<open>
  \<open>internal/config\<close>: loading the configuration from the environment. The environment is a
  function from variable names to values that gives the empty string for an unset
  variable, as \<open>os.Getenv\<close> does. The error texts are constructors that carry what the
  message names; the order in which the errors win over each other is the code's.
\<close>

section \<open>The code\<close>

type_synonym env = "string \<Rightarrow> string"

record Config =
  SoloistAPIKey :: string
  TeddycloudURL :: string
  ListenAddr :: string
  SoloistDataDir :: string
  SoloistCacheDir :: string
  SoloistDeviceName :: string
  SoloistBin :: string
  SoloistVolume :: int
  LogLevel :: string
  StaticStream :: bool
  StaticSampleRate :: u32
  RecorderBuffer :: int

datatype config_err =
    BadVolume string
  | BadSampleRate string
  | BadRecorderBuffer string
  | MissingVars "string list"

definition getenv :: "env \<Rightarrow> string \<Rightarrow> string \<Rightarrow> string" where
  "getenv e key fallback = (if e key \<noteq> [] then e key else fallback)"

definition getenvInt :: "env \<Rightarrow> string \<Rightarrow> int \<Rightarrow> int option" where
  "getenvInt e key fallback = (if e key = [] then Some fallback else Atoi (e key))"

definition getenvBool :: "env \<Rightarrow> string \<Rightarrow> bool" where
  "getenvBool e key = (ToLower (e key) \<in> {''1'', ''true'', ''yes'', ''on''})"

text \<open>A numeric variable that must parse and lie in a closed range.\<close>

definition ranged :: "int \<Rightarrow> int \<Rightarrow> int option \<Rightarrow> int option" where
  "ranged lo hi r = (case r of None \<Rightarrow> None | Some v \<Rightarrow> if v < lo \<or> v > hi then None else Some v)"

definition missing_vars :: "env \<Rightarrow> string list" where
  "missing_vars e =
    (if e ''SOLOIST_API_KEY'' \<noteq> [] then [] else [''SOLOIST_API_KEY''])
    @ (if e ''TEDDYCLOUD_URL'' \<noteq> [] then [] else [''TEDDYCLOUD_URL''])"

text \<open>The configuration once every check has passed: defaults, and the values parsed before.\<close>

definition build_config :: "env \<Rightarrow> int \<Rightarrow> int \<Rightarrow> int \<Rightarrow> Config" where
  "build_config e vol sr buf =
    \<lparr>SoloistAPIKey = e ''SOLOIST_API_KEY'',
     TeddycloudURL = e ''TEDDYCLOUD_URL'',
     ListenAddr = getenv e ''LISTEN_ADDR'' '':8080'',
     SoloistDataDir = getenv e ''SOLOIST_DATA_DIR'' ''/data'',
     SoloistCacheDir = getenv e ''SOLOIST_CACHE_DIR'' ''/cache'',
     SoloistDeviceName = getenv e ''SOLOIST_DEVICE_NAME'' ''teddycloud-spotify-shim'',
     SoloistBin = getenv e ''SOLOIST_BIN'' [],
     SoloistVolume = vol,
     LogLevel = getenv e ''LOG_LEVEL'' ''info'',
     StaticStream = getenvBool e ''STATIC_STREAM'',
     StaticSampleRate = word_of_int sr,
     RecorderBuffer = buf\<rparr>"

definition Load :: "env \<Rightarrow> config_err + Config" where
  "Load e =
    (case ranged 0 100 (getenvInt e ''SOLOIST_VOLUME'' 100) of
       None \<Rightarrow> Inl (BadVolume (e ''SOLOIST_VOLUME''))
     | Some vol \<Rightarrow>
       (case ranged 8000 96000 (getenvInt e ''STATIC_SAMPLE_RATE'' 22050) of
          None \<Rightarrow> Inl (BadSampleRate (e ''STATIC_SAMPLE_RATE''))
        | Some sr \<Rightarrow>
          (case ranged 1 65536 (getenvInt e ''RECORDER_BUFFER'' 256) of
             None \<Rightarrow> Inl (BadRecorderBuffer (e ''RECORDER_BUFFER''))
           | Some buf \<Rightarrow>
             (if missing_vars e \<noteq> [] then Inl (MissingVars (missing_vars e))
              else Inr (build_config e vol sr buf)))))"

section \<open>Loading is correct\<close>

lemma ranged_Some: "ranged lo hi r = Some v \<longleftrightarrow> r = Some v \<and> lo \<le> v \<and> v \<le> hi"
  by (auto simp: ranged_def split: option.splits)

lemma missing_vars_Nil:
  "missing_vars e = [] \<longleftrightarrow> e ''SOLOIST_API_KEY'' \<noteq> [] \<and> e ''TEDDYCLOUD_URL'' \<noteq> []"
  by (simp add: missing_vars_def)

text \<open>The three numeric variables as \<open>Load\<close> reads them.\<close>

definition cfg_volume :: "env \<Rightarrow> int option" where
  "cfg_volume e = ranged 0 100 (getenvInt e ''SOLOIST_VOLUME'' 100)"

definition cfg_rate :: "env \<Rightarrow> int option" where
  "cfg_rate e = ranged 8000 96000 (getenvInt e ''STATIC_SAMPLE_RATE'' 22050)"

definition cfg_buffer :: "env \<Rightarrow> int option" where
  "cfg_buffer e = ranged 1 65536 (getenvInt e ''RECORDER_BUFFER'' 256)"

lemmas cfg_defs = cfg_volume_def cfg_rate_def cfg_buffer_def

lemma Load_cases:
  "Load e =
    (case cfg_volume e of None \<Rightarrow> Inl (BadVolume (e ''SOLOIST_VOLUME''))
     | Some vol \<Rightarrow> (case cfg_rate e of None \<Rightarrow> Inl (BadSampleRate (e ''STATIC_SAMPLE_RATE''))
        | Some sr \<Rightarrow> (case cfg_buffer e of None \<Rightarrow> Inl (BadRecorderBuffer (e ''RECORDER_BUFFER''))
           | Some buf \<Rightarrow> (if missing_vars e \<noteq> [] then Inl (MissingVars (missing_vars e))
              else Inr (build_config e vol sr buf)))))"
  by (simp only: Load_def cfg_defs)

lemma Load_Inr_iff:
  "Load e = Inr c \<longleftrightarrow>
    (\<exists>vol sr buf. cfg_volume e = Some vol \<and> cfg_rate e = Some sr \<and> cfg_buffer e = Some buf
       \<and> missing_vars e = [] \<and> c = build_config e vol sr buf)"
  unfolding Load_cases by (auto split: option.splits)

lemma getenv_nonempty: "d \<noteq> [] \<Longrightarrow> getenv e k d \<noteq> []"
  by (simp add: getenv_def)

text \<open>C20: every configuration \<open>Load\<close> accepts is well formed: the required variables and the
  defaulted ones are not empty, the volume, the static sample rate and the recorder buffer
  lie in their ranges, and the sample rate survives the conversion to 32 bits.\<close>

theorem Load_well_formed:
  assumes "Load e = Inr c"
  shows "SoloistAPIKey c \<noteq> [] \<and> TeddycloudURL c \<noteq> [] \<and> ListenAddr c \<noteq> []
    \<and> SoloistDataDir c \<noteq> [] \<and> SoloistCacheDir c \<noteq> []
    \<and> 0 \<le> SoloistVolume c \<and> SoloistVolume c \<le> 100
    \<and> getenvInt e ''STATIC_SAMPLE_RATE'' 22050 = Some (uint (StaticSampleRate c))
    \<and> 8000 \<le> uint (StaticSampleRate c) \<and> uint (StaticSampleRate c) \<le> 96000
    \<and> 1 \<le> RecorderBuffer c \<and> RecorderBuffer c \<le> 65536"
proof -
  obtain vol sr buf where v: "cfg_volume e = Some vol" and r: "cfg_rate e = Some sr"
      and b: "cfg_buffer e = Some buf" and m: "missing_vars e = []"
      and c: "c = build_config e vol sr buf"
    using assms by (auto simp: Load_Inr_iff)
  have rate: "8000 \<le> sr" "sr \<le> 96000"
      "getenvInt e ''STATIC_SAMPLE_RATE'' 22050 = Some sr"
    using r unfolding cfg_rate_def ranged_Some by blast+
  have ranges: "0 \<le> vol" "vol \<le> 100" "1 \<le> buf" "buf \<le> 65536"
    using v b unfolding cfg_defs ranged_Some by blast+
  have "uint (StaticSampleRate c) = sr"
    using rate by (simp add: c build_config_def uint_word_of_int)
  moreover have "ListenAddr c \<noteq> []" "SoloistDataDir c \<noteq> []" "SoloistCacheDir c \<noteq> []"
    unfolding c build_config_def Config.simps by (rule getenv_nonempty; simp)+
  moreover have "SoloistAPIKey c = e ''SOLOIST_API_KEY''" "TeddycloudURL c = e ''TEDDYCLOUD_URL''"
      "SoloistVolume c = vol" "RecorderBuffer c = buf"
    unfolding c build_config_def Config.simps by (rule refl)+
  ultimately show ?thesis using rate ranges m unfolding missing_vars_Nil by simp
qed

text \<open>A container's environment with a custom volume, used by the witnesses.\<close>

definition demo_env :: env where
  "demo_env k =
    (if k = ''SOLOIST_API_KEY'' then ''key''
     else if k = ''TEDDYCLOUD_URL'' then ''http://tc''
     else if k = ''SOLOIST_VOLUME'' then ''80'' else [])"

theorem Load_well_formed_witness:
  "1 \<le> RecorderBuffer (build_config demo_env 80 22050 256) \<and> Load demo_env = Inr (build_config demo_env 80 22050 256)"
proof -
  have "cfg_volume demo_env = Some 80" "cfg_rate demo_env = Some 22050" "cfg_buffer demo_env = Some 256"
      "missing_vars demo_env = []"
    by (simp_all add: cfg_defs ranged_def getenvInt_def missing_vars_def demo_env_def Atoi_def digit_of_def)
  then have l: "Load demo_env = Inr (build_config demo_env 80 22050 256)"
    unfolding Load_Inr_iff by blast
  show ?thesis using Load_well_formed [OF l] l by blast
qed

text \<open>\<open>Load\<close> succeeds on exactly the environments in which every numeric variable
  parses and is in range and both required variables are set.\<close>

theorem Load_accepts_iff:
  "(\<exists>c. Load e = Inr c) \<longleftrightarrow>
    (\<exists>v. getenvInt e ''SOLOIST_VOLUME'' 100 = Some v \<and> 0 \<le> v \<and> v \<le> 100)
    \<and> (\<exists>v. getenvInt e ''STATIC_SAMPLE_RATE'' 22050 = Some v \<and> 8000 \<le> v \<and> v \<le> 96000)
    \<and> (\<exists>v. getenvInt e ''RECORDER_BUFFER'' 256 = Some v \<and> 1 \<le> v \<and> v \<le> 65536)
    \<and> e ''SOLOIST_API_KEY'' \<noteq> [] \<and> e ''TEDDYCLOUD_URL'' \<noteq> []"
proof -
  have "(\<exists>c. Load e = Inr c) \<longleftrightarrow>
      (\<exists>v. cfg_volume e = Some v) \<and> (\<exists>v. cfg_rate e = Some v) \<and> (\<exists>v. cfg_buffer e = Some v)
      \<and> missing_vars e = []"
    unfolding Load_Inr_iff by blast
  then show ?thesis unfolding cfg_defs ranged_Some missing_vars_Nil .
qed

text \<open>the errors of \<open>Load\<close> are exact and ordered: a numeric variable out of range is
  reported before missing variables, and the missing-variables error names exactly the
  required variables that are unset, without repetition.\<close>

theorem Load_error_order:
  "(\<forall>ks. Load e = Inl (MissingVars ks) \<longleftrightarrow>
      ks \<noteq> [] \<and> ks = missing_vars e
      \<and> ranged 0 100 (getenvInt e ''SOLOIST_VOLUME'' 100) \<noteq> None
      \<and> ranged 8000 96000 (getenvInt e ''STATIC_SAMPLE_RATE'' 22050) \<noteq> None
      \<and> ranged 1 65536 (getenvInt e ''RECORDER_BUFFER'' 256) \<noteq> None)
   \<and> set (missing_vars e) = {k \<in> {''SOLOIST_API_KEY'', ''TEDDYCLOUD_URL''}. e k = []}
   \<and> distinct (missing_vars e)
   \<and> (Load e = Inl (BadVolume (e ''SOLOIST_VOLUME'')) \<longleftrightarrow>
      ranged 0 100 (getenvInt e ''SOLOIST_VOLUME'' 100) = None)"
proof (intro conjI allI)
  fix ks
  show "Load e = Inl (MissingVars ks) \<longleftrightarrow>
      ks \<noteq> [] \<and> ks = missing_vars e
      \<and> ranged 0 100 (getenvInt e ''SOLOIST_VOLUME'' 100) \<noteq> None
      \<and> ranged 8000 96000 (getenvInt e ''STATIC_SAMPLE_RATE'' 22050) \<noteq> None
      \<and> ranged 1 65536 (getenvInt e ''RECORDER_BUFFER'' 256) \<noteq> None"
    unfolding Load_cases cfg_defs [symmetric] by (auto split: option.splits)
  show "set (missing_vars e) = {k \<in> {''SOLOIST_API_KEY'', ''TEDDYCLOUD_URL''}. e k = []}"
    by (auto simp: missing_vars_def)
  show "distinct (missing_vars e)" by (simp add: missing_vars_def)
  show "Load e = Inl (BadVolume (e ''SOLOIST_VOLUME'')) \<longleftrightarrow>
      ranged 0 100 (getenvInt e ''SOLOIST_VOLUME'' 100) = None"
    unfolding Load_cases cfg_defs [symmetric] by (auto split: option.splits)
qed

section \<open>Round trip through the environment\<close>

text \<open>The environment an operator would write for a configuration.\<close>

definition env_of :: "Config \<Rightarrow> env" where
  "env_of c = (\<lambda>_. [])
    (''SOLOIST_API_KEY'' := SoloistAPIKey c, ''TEDDYCLOUD_URL'' := TeddycloudURL c,
     ''LISTEN_ADDR'' := ListenAddr c, ''SOLOIST_DATA_DIR'' := SoloistDataDir c,
     ''SOLOIST_CACHE_DIR'' := SoloistCacheDir c, ''SOLOIST_DEVICE_NAME'' := SoloistDeviceName c,
     ''SOLOIST_BIN'' := SoloistBin c, ''SOLOIST_VOLUME'' := Itoa (SoloistVolume c),
     ''LOG_LEVEL'' := LogLevel c,
     ''STATIC_STREAM'' := (if StaticStream c then ''true'' else []),
     ''STATIC_SAMPLE_RATE'' := Itoa (uint (StaticSampleRate c)),
     ''RECORDER_BUFFER'' := Itoa (RecorderBuffer c))"

definition config_ok :: "Config \<Rightarrow> bool" where
  "config_ok c =
    (SoloistAPIKey c \<noteq> [] \<and> TeddycloudURL c \<noteq> [] \<and> ListenAddr c \<noteq> []
     \<and> SoloistDataDir c \<noteq> [] \<and> SoloistCacheDir c \<noteq> [] \<and> SoloistDeviceName c \<noteq> []
     \<and> LogLevel c \<noteq> [] \<and> 0 \<le> SoloistVolume c \<and> SoloistVolume c \<le> 100
     \<and> 8000 \<le> uint (StaticSampleRate c) \<and> uint (StaticSampleRate c) \<le> 96000
     \<and> 1 \<le> RecorderBuffer c \<and> RecorderBuffer c \<le> 65536)"

lemma Itoa_nonempty [simp]: "Itoa i \<noteq> []"
  by (simp add: Itoa_def)

lemma getenvInt_Itoa:
  "e key = Itoa v \<Longrightarrow> - (2 ^ 63) \<le> v \<Longrightarrow> v < 2 ^ 63 \<Longrightarrow> getenvInt e key d = Some v"
  by (simp add: getenvInt_def Atoi_Itoa)

lemma env_of_lookups:
  "env_of c ''SOLOIST_API_KEY'' = SoloistAPIKey c" "env_of c ''TEDDYCLOUD_URL'' = TeddycloudURL c"
  "env_of c ''LISTEN_ADDR'' = ListenAddr c" "env_of c ''SOLOIST_DATA_DIR'' = SoloistDataDir c"
  "env_of c ''SOLOIST_CACHE_DIR'' = SoloistCacheDir c"
  "env_of c ''SOLOIST_DEVICE_NAME'' = SoloistDeviceName c" "env_of c ''SOLOIST_BIN'' = SoloistBin c"
  "env_of c ''SOLOIST_VOLUME'' = Itoa (SoloistVolume c)" "env_of c ''LOG_LEVEL'' = LogLevel c"
  "env_of c ''STATIC_STREAM'' = (if StaticStream c then ''true'' else [])"
  "env_of c ''STATIC_SAMPLE_RATE'' = Itoa (uint (StaticSampleRate c))"
  "env_of c ''RECORDER_BUFFER'' = Itoa (RecorderBuffer c)"
  by (simp_all add: env_of_def)

text \<open>C21: \<open>Load\<close> inverts the writing of a configuration to the environment: every
  well-formed configuration, written out in decimal and text, is loaded back unchanged.\<close>

theorem Load_env_of:
  assumes "config_ok c"
  shows "Load (env_of c) = Inr c"
proof -
  have v: "cfg_volume (env_of c) = Some (SoloistVolume c)"
      and r: "cfg_rate (env_of c) = Some (uint (StaticSampleRate c))"
      and b: "cfg_buffer (env_of c) = Some (RecorderBuffer c)"
    using assms unfolding cfg_defs ranged_Some config_ok_def
    by (auto intro!: getenvInt_Itoa env_of_lookups)
  have m: "missing_vars (env_of c) = []"
    using assms unfolding missing_vars_Nil config_ok_def env_of_lookups by blast
  have "ToLower ''true'' = ''true''" by code_simp
  then have s: "getenvBool (env_of c) ''STATIC_STREAM'' = StaticStream c"
    unfolding getenvBool_def env_of_lookups by (simp add: ToLower_def)
  have "build_config (env_of c) (SoloistVolume c) (uint (StaticSampleRate c)) (RecorderBuffer c) = c"
    using assms unfolding build_config_def getenv_def s env_of_lookups
    by (simp add: config_ok_def)
  with v r b m show ?thesis unfolding Load_Inr_iff by metis
qed

definition demo_config :: Config where
  "demo_config = build_config demo_env 80 22050 256"

theorem Load_env_of_witness: "Load (env_of demo_config) = Inr demo_config"
proof (rule Load_env_of)
  show "config_ok demo_config"
    by (simp add: config_ok_def demo_config_def build_config_def getenv_def demo_env_def)
qed

end
