(* ===== verification/Telemetry.thy ===== *)
theory Telemetry imports GoFloat begin

text \<open>
  \<open>internal/telemetry\<close>: the sampler that turns cumulative counters into rates. Counters are
  64-bit words whose differences wrap; rates are \<open>float64\<close> values (theory GoFloat). A point in
  time is an integer count of nanoseconds and \<open>Time.Sub\<close> saturates at the \<open>Duration\<close> range.
\<close>

section \<open>The code\<close>

record Snapshot =
  Chunks :: u64
  Dropped :: u64
  Delivered :: u64
  Streams :: i64

record Summary =
  ChunksPerSec :: rat
  DroppedPerSec :: rat
  DropRatio :: rat
  DeliveredKiBps :: rat
  SumStreams :: i64

record Sampler =
  prev :: Snapshot
  prevT :: int
  is_set :: bool

definition zero_snapshot :: Snapshot where
  "zero_snapshot = \<lparr>Chunks = 0, Dropped = 0, Delivered = 0, Streams = 0\<rparr>"

definition new_sampler :: Sampler where
  "new_sampler = \<lparr>prev = zero_snapshot, prevT = 0, is_set = False\<rparr>"

definition time_Sub :: "int \<Rightarrow> int \<Rightarrow> int" where
  "time_Sub t u = max (- (2 ^ 63)) (min (2 ^ 63 - 1) (t - u))"

text \<open>\<open>Duration.Seconds\<close> for a positive duration: whole seconds plus the rest.\<close>

definition Seconds :: "int \<Rightarrow> rat" where
  "Seconds d = f64_add (f64_of_nat (nat (d div 1000000000)))
                       (f64_div (f64_of_nat (nat (d mod 1000000000))) (f64_of_nat 1000000000))"

definition f64_of_u64 :: "u64 \<Rightarrow> rat" where
  "f64_of_u64 w = f64_of_nat (unat w)"

definition Sample :: "Sampler \<Rightarrow> int \<Rightarrow> Snapshot \<Rightarrow> Summary \<times> Sampler" where
  "Sample s now cur =
    (if \<not> is_set s \<or> Chunks cur < Chunks (prev s) \<or> Dropped cur < Dropped (prev s)
     then (\<lparr>ChunksPerSec = 0, DroppedPerSec = 0, DropRatio = 0, DeliveredKiBps = 0,
            SumStreams = Streams cur\<rparr>,
           \<lparr>prev = cur, prevT = now, is_set = True\<rparr>)
     else
       let dt = (let d = time_Sub now (prevT s) in if d \<le> 0 then 1000000000 else d);
           sec = Seconds dt;
           dropped = f64_of_u64 (Dropped cur - Dropped (prev s));
           produced = f64_add dropped (f64_of_u64 (Chunks cur - Chunks (prev s)))
       in (\<lparr>ChunksPerSec = f64_div (f64_of_u64 (Chunks cur - Chunks (prev s))) sec,
            DroppedPerSec = f64_div (f64_of_u64 (Dropped cur - Dropped (prev s))) sec,
            DropRatio = (if 0 < produced then f64_div dropped produced else 0),
            DeliveredKiBps =
              f64_div (f64_div (f64_of_u64 (Delivered cur - Delivered (prev s))) (f64_of_nat 1024)) sec,
            SumStreams = Streams cur\<rparr>,
           s\<lparr>prev := cur, prevT := now\<rparr>))"

section \<open>Rates\<close>

lemma f64_of_u64_nonneg [simp]: "0 \<le> f64_of_u64 w"
  by (simp add: f64_of_u64_def)

lemma f64_of_u64_0 [simp]: "f64_of_u64 w = 0 \<longleftrightarrow> w = 0"
  by (simp add: f64_of_u64_def unat_eq_0)

lemma f64_of_u64_rnd [simp]: "rnd (f64_of_u64 w) = f64_of_u64 w"
  by (simp add: f64_of_u64_def)

lemma Seconds_pos:
  assumes "0 < d"
  shows "0 < Seconds d"
proof -
  let ?a = "f64_of_nat (nat (d div 1000000000))"
  let ?n = "f64_of_nat (nat (d mod 1000000000))" and ?g = "f64_of_nat 1000000000"
  have g: "0 < ?g" using f64_of_nat_0 [of 1000000000] f64_nonneg(1) [of 1000000000] by linarith
  have b: "0 \<le> f64_div ?n ?g" by simp
  have le: "?a \<le> Seconds d" using f64_add_ge [of ?a "f64_div ?n ?g"] b by (simp add: Seconds_def)
  have nn: "0 \<le> Seconds d" using b by (simp add: Seconds_def)
  have "Seconds d \<noteq> 0"
  proof
    assume z: "Seconds d = 0"
    then have "?a + f64_div ?n ?g = 0"
      using b rnd_eq_0_iff [of "?a + f64_div ?n ?g"] by (simp add: Seconds_def f64_add_def)
    then have "?a = 0" and "f64_div ?n ?g = 0" using b f64_nonneg(1) by (metis add_nonneg_eq_0_iff)+
    then have "nat (d div 1000000000) = 0" and "nat (d mod 1000000000) = 0"
      using f64_div_eq_0 [OF _ g, of ?n] by simp_all
    then have "d div 1000000000 \<le> 0" and "d mod 1000000000 \<le> 0" by (simp_all only: nat_0_iff)
    then show False using assms div_mult_mod_eq [of d 1000000000] by linarith
  qed
  with nn show ?thesis by simp
qed

lemma drop_ratio_unit:
  assumes "0 \<le> a" "rnd a = a" "0 \<le> b"
  shows "0 \<le> (if 0 < f64_add a b then f64_div a (f64_add a b) else 0)
       \<and> (if 0 < f64_add a b then f64_div a (f64_add a b) else 0) \<le> 1"
  using f64_add_ge [OF assms(2,1,3)] f64_div_le1 [of a "f64_add a b"] assms by simp

lemma drop_ratio_zero:
  assumes "0 \<le> a" "rnd a = a" "0 \<le> b"
  shows "(if 0 < f64_add a b then f64_div a (f64_add a b) else 0) = 0 \<longleftrightarrow> a = 0"
  using f64_add_ge [OF assms(2,1,3)] f64_div_eq_0 [of a "f64_add a b"] assms(1) by auto

definition rates_sane :: "Summary \<Rightarrow> bool" where
  "rates_sane r \<longleftrightarrow> 0 \<le> ChunksPerSec r \<and> 0 \<le> DroppedPerSec r \<and> 0 \<le> DeliveredKiBps r
     \<and> 0 \<le> DropRatio r \<and> DropRatio r \<le> 1"

text \<open>The elapsed time is replaced by one second when it is not positive.\<close>

definition elapsed :: "Sampler \<Rightarrow> int \<Rightarrow> int" where
  "elapsed s now = (let d = time_Sub now (prevT s) in if d \<le> 0 then 1000000000 else d)"

lemma elapsed_pos: "0 < elapsed s now"
  by (simp add: elapsed_def Let_def)

lemma Sample_sane: "rates_sane (fst (Sample s now cur))"
proof -
  have sec: "0 < Seconds (elapsed s now)" by (rule Seconds_pos [OF elapsed_pos])
  show ?thesis
    using drop_ratio_unit [of "f64_of_u64 (Dropped cur - Dropped (prev s))"
        "f64_of_u64 (Chunks cur - Chunks (prev s))"] sec
    unfolding Sample_def Let_def elapsed_def rates_sane_def by simp
qed

text \<open>The report when the sample does not start a new baseline.\<close>

definition rebase :: "Sampler \<Rightarrow> Snapshot \<Rightarrow> bool" where
  "rebase s cur \<longleftrightarrow> \<not> is_set s \<or> Chunks cur < Chunks (prev s) \<or> Dropped cur < Dropped (prev s)"

lemma not_rebase:
  "\<not> rebase s cur \<longleftrightarrow> is_set s \<and> Chunks (prev s) \<le> Chunks cur \<and> Dropped (prev s) \<le> Dropped cur"
  by (auto simp: rebase_def not_less)

lemma Sample_rebase:
  "rebase s cur \<Longrightarrow> fst (Sample s now cur) =
    \<lparr>ChunksPerSec = 0, DroppedPerSec = 0, DropRatio = 0, DeliveredKiBps = 0, SumStreams = Streams cur\<rparr>"
  by (auto simp: Sample_def rebase_def)

lemma Sample_rates:
  assumes "\<not> rebase s cur"
  shows "ChunksPerSec (fst (Sample s now cur)) =
      f64_div (f64_of_u64 (Chunks cur - Chunks (prev s))) (Seconds (elapsed s now))"
    and "DropRatio (fst (Sample s now cur)) =
      (let d = f64_of_u64 (Dropped cur - Dropped (prev s));
           p = f64_add d (f64_of_u64 (Chunks cur - Chunks (prev s)))
       in if 0 < p then f64_div d p else 0)"
    and "SumStreams (fst (Sample s now cur)) = Streams cur"
  using assms by (auto simp: Sample_def rebase_def elapsed_def Let_def)

fun Samples :: "Sampler \<Rightarrow> (int \<times> Snapshot) list \<Rightarrow> Summary list \<times> Sampler" where
  "Samples s [] = ([], s)"
| "Samples s ((t, c) # r) =
    (let (x, s1) = Sample s t c; (xs, s2) = Samples s1 r in (x # xs, s2))"

lemma fst_Samples_Cons:
  "fst (Samples s ((t, c) # r)) = fst (Sample s t c) # fst (Samples (snd (Sample s t c)) r)"
  by (simp split: prod.splits)

lemma Sample_state: "snd (Sample s now cur) = \<lparr>prev = cur, prevT = now, is_set = True\<rparr>"
  by (cases s) (auto simp: Sample_def Let_def)

text \<open>whatever the counters and the clock do (recorder restarts, time going backwards,
  several samples at one instant), every report of the sampler is sane: no rate is negative
  and the drop ratio lies between 0 and 1, in the code's own floating-point arithmetic.\<close>

theorem Samples_sane: "list_all rates_sane (fst (Samples s xs))"
proof (induction xs arbitrary: s)
  case (Cons x xs)
  obtain t c where x: "x = (t, c)" by (cases x)
  show ?case using Sample_sane [of s t c] Cons.IH [of "snd (Sample s t c)"]
    by (simp only: x fst_Samples_Cons list.pred_inject)
qed simp

text \<open>a sample reports a baseline (all rates zero) exactly when it is the first one or a
  recorder counter moved backwards; otherwise the reported drop ratio is zero exactly when
  no chunk was dropped since the last sample. Afterwards the sampler always holds the
  current reading.\<close>

theorem Sample_baseline:
  "(let r = fst (Sample s now cur)
    in (if is_set s \<and> Chunks (prev s) \<le> Chunks cur \<and> Dropped (prev s) \<le> Dropped cur
        then (DropRatio r = 0 \<longleftrightarrow> Dropped cur = Dropped (prev s))
             \<and> (ChunksPerSec r = 0 \<longleftrightarrow> Chunks cur = Chunks (prev s))
             \<and> SumStreams r = Streams cur
        else r = \<lparr>ChunksPerSec = 0, DroppedPerSec = 0, DropRatio = 0, DeliveredKiBps = 0,
                  SumStreams = Streams cur\<rparr>))
   \<and> snd (Sample s now cur) = \<lparr>prev = cur, prevT = now, is_set = True\<rparr>"
proof -
  have sec: "0 < Seconds (elapsed s now)" by (rule Seconds_pos [OF elapsed_pos])
  have "DropRatio (fst (Sample s now cur)) = 0 \<longleftrightarrow> Dropped cur = Dropped (prev s)"
    if "\<not> rebase s cur"
    using drop_ratio_zero [of "f64_of_u64 (Dropped cur - Dropped (prev s))"] that
    by (simp add: Sample_rates Let_def)
  moreover have "ChunksPerSec (fst (Sample s now cur)) = 0 \<longleftrightarrow> Chunks cur = Chunks (prev s)"
    if "\<not> rebase s cur"
    using that sec by (simp add: Sample_rates f64_div_eq_0)
  ultimately show ?thesis
    unfolding Let_def not_rebase [symmetric] Sample_state
    by (simp add: Sample_rebase Sample_rates(3))
qed

text \<open>a rate is the counter difference divided by the elapsed seconds: over a whole number
  of seconds that is exact but for one rounding, provided the counter did not go backwards
  and both numbers are below \<open>2^53\<close>.\<close>

theorem Sample_rate_exact:
  assumes "is_set s" and "Chunks (prev s) \<le> Chunks cur" and "Dropped (prev s) \<le> Dropped cur"
    and "now - prevT s = 1000000000 * int n" and "0 < n" and "n < 2 ^ 33"
    and "unat (Chunks cur) - unat (Chunks (prev s)) < 2 ^ 53"
  shows "ChunksPerSec (fst (Sample s now cur)) =
         rnd (of_nat (unat (Chunks cur) - unat (Chunks (prev s))) / of_nat n)"
proof -
  have sub: "unat (Chunks cur - Chunks (prev s)) = unat (Chunks cur) - unat (Chunks (prev s))"
    using assms(2) by (rule unat_sub)
  have "time_Sub now (prevT s) = 1000000000 * int n"
    using assms(4,6) by (simp add: time_Sub_def)
  then have e: "elapsed s now = 1000000000 * int n"
    using assms(5) by (simp add: elapsed_def)
  have "f64_of_nat n = of_nat n" using assms(6) by (intro f64_of_nat_exact) simp
  then have sec: "Seconds (elapsed s now) = of_nat n"
    by (simp add: e Seconds_def f64_add_def f64_of_nat_def)
  have "\<not> rebase s cur" using assms(1-3) by (simp add: rebase_def not_less)
  then show ?thesis
    by (simp add: Sample_rates(1) sec f64_of_u64_def sub f64_of_nat_exact [OF assms(7)] f64_div_def)
qed

text \<open>Ten seconds after a reading of 5 chunks, 40 chunks have been sent: 3.5 per second.\<close>

theorem Sample_rate_exact_witness:
  "ChunksPerSec (fst (Sample \<lparr>prev = \<lparr>Chunks = 5, Dropped = 1, Delivered = 0, Streams = 0\<rparr>, prevT = 0, is_set = True\<rparr>
       10000000000 \<lparr>Chunks = 40, Dropped = 1, Delivered = 0, Streams = 0\<rparr>)) = rnd (35 / 10)"
  using Sample_rate_exact [of "\<lparr>prev = \<lparr>Chunks = 5, Dropped = 1, Delivered = 0, Streams = 0\<rparr>, prevT = 0, is_set = True\<rparr>"
      "\<lparr>Chunks = 40, Dropped = 1, Delivered = 0, Streams = 0\<rparr>" 10000000000 10]
  by simp

end
