(* ===== verification/Pairing.thy ===== *)
theory Pairing imports Binary ProcessModel Backoff begin

text \<open>
  \<open>internal/soloist/session.go\<close> and \<open>pair.go\<close>: the check for a stored session, one pairing
  attempt and the loop that repeats it. The blocking \<open>select\<close> of an attempt is a list of
  events, each with the disk as it is at that moment; the attempt consumes events until one
  of them ends it. The loop takes the outcomes of its attempts and the way each of its timers
  ended, and records its waits.
\<close>

section \<open>Session check\<close>

datatype SessionState = StateReady | StateUnpaired

definition sessionUsersRel :: string where "sessionUsersRel = ''settings/Users''"

definition Check :: "string \<Rightarrow> fs \<Rightarrow> SessionState" where
  "Check dataDir f =
    (case os_Stat f (path_Join [dataDir, sessionUsersRel]) of
       Inr info \<Rightarrow> if is_dir info then StateReady else StateUnpaired
     | Inl e \<Rightarrow> StateUnpaired)"

section \<open>One attempt\<close>

datatype PairOutcome = PairDone | PairRetry | PairExpired | PairCanceled

record Pairer =
  PairBinaryPath :: string
  PairDeviceName :: string
  PairAPIKey :: string
  PairDataDir :: string
  PairCacheDir :: string
  PairChecker :: "string option"
  PairBinary :: "BinaryManager option"
  PollInterval :: duration

definition pair_args :: "Pairer \<Rightarrow> string list" where
  "pair_args p =
    [''--device-name'', PairDeviceName p, ''--api-key'', PairAPIKey p, ''--data-dir'', PairDataDir p,
     ''--cache-dir'', PairCacheDir p, ''--pair'']"

definition pair_interval :: "Pairer \<Rightarrow> duration" where
  "pair_interval p = (if sint (PollInterval p) \<le> 0 then 2 * second else PollInterval p)"

text \<open>The directory the checker in use looks at.\<close>

definition checker_dir :: "Pairer \<Rightarrow> string" where
  "checker_dir p = (case PairChecker p of None \<Rightarrow> PairDataDir p | Some d \<Rightarrow> d)"

text \<open>The events of the \<open>select\<close>: cancellation, the end of the process, a tick.\<close>

datatype pair_event = PairCtx fs | PairExit goerror fs | PairTick fs

fun event_disk :: "pair_event \<Rightarrow> fs" where
  "event_disk (PairCtx f) = f"
| "event_disk (PairExit e f) = f"
| "event_disk (PairTick f) = f"

text \<open>What an attempt leaves behind: its outcome, whether it killed the process, the disk.\<close>

record attempt =
  outcome :: PairOutcome
  pair_killed :: bool
  pair_exited :: bool
  pair_disk :: fs

definition pair_exit :: "Pairer \<Rightarrow> goerror \<Rightarrow> fs \<Rightarrow> attempt" where
  "pair_exit p waitErr f =
    (let code = ExitCode waitErr
     in if code = 0 then \<lparr>outcome = PairDone, pair_killed = False, pair_exited = True, pair_disk = f\<rparr>
        else if code = 10 then
          \<lparr>outcome = PairExpired, pair_killed = False, pair_exited = True,
           pair_disk = (case PairBinary p of None \<Rightarrow> f | Some b \<Rightarrow> DeleteBinary None b f)\<rparr>
        else \<lparr>outcome = PairRetry, pair_killed = False, pair_exited = True, pair_disk = f\<rparr>)"

fun pair_loop :: "Pairer \<Rightarrow> pair_event list \<Rightarrow> attempt option" where
  "pair_loop p [] = None"
| "pair_loop p (PairCtx f # evs) =
    Some \<lparr>outcome = PairCanceled, pair_killed = True, pair_exited = False, pair_disk = f\<rparr>"
| "pair_loop p (PairExit e f # evs) = Some (pair_exit p e f)"
| "pair_loop p (PairTick f # evs) =
    (if Check (checker_dir p) f = StateReady
     then Some \<lparr>outcome = PairDone, pair_killed = True, pair_exited = False, pair_disk = f\<rparr>
     else pair_loop p evs)"

text \<open>\<open>Pair\<close>: \<open>None\<close> while it still waits for an event; a start error is an immediate retry.\<close>

definition Pair :: "Pairer \<Rightarrow> goerror \<Rightarrow> fs \<Rightarrow> pair_event list \<Rightarrow> attempt option" where
  "Pair p start_err f evs =
    (case start_err of
       Some e \<Rightarrow> Some \<lparr>outcome = PairRetry, pair_killed = False, pair_exited = False, pair_disk = f\<rparr>
     | None \<Rightarrow> pair_loop p evs)"

section \<open>The retry loop\<close>

text \<open>
  \<open>Drive\<close> on the outcome of each attempt and the end of the wait that follows a retry. The
  result is \<open>None\<close> while the attempts given are used up; the waits are recorded.
\<close>

fun Drive :: "(PairOutcome \<times> wake) list \<Rightarrow> duration \<Rightarrow> duration \<Rightarrow> PairOutcome option \<times> duration list" where
  "Drive [] backoff maxb = (None, [])"
| "Drive ((r, w) # as) backoff maxb =
    (if r \<noteq> PairRetry then (Some r, [])
     else if \<not> soloist_sleep w then (Some PairCanceled, [backoff])
     else (let (res, ws) = Drive as (soloist_NextBackoff backoff maxb) maxb in (res, backoff # ws)))"

lemma Drive_Cons [simp]:
  "Drive ((r, w) # as) b m =
    (if r \<noteq> PairRetry then (Some r, [])
     else if \<not> soloist_sleep w then (Some PairCanceled, [b])
     else (fst (Drive as (soloist_NextBackoff b m) m), b # snd (Drive as (soloist_NextBackoff b m) m)))"
  by (simp add: split_beta)

declare Drive.simps(2) [simp del]

section \<open>Properties\<close>

text \<open>The event that ends an attempt.\<close>

definition ends_attempt :: "Pairer \<Rightarrow> pair_event \<Rightarrow> bool" where
  "ends_attempt p e = (case e of PairTick f \<Rightarrow> Check (checker_dir p) f = StateReady | _ \<Rightarrow> True)"

definition end_of_attempt :: "Pairer \<Rightarrow> pair_event \<Rightarrow> attempt" where
  "end_of_attempt p e =
    (case e of
       PairExit err f \<Rightarrow> pair_exit p err f
     | PairCtx f \<Rightarrow> \<lparr>outcome = PairCanceled, pair_killed = True, pair_exited = False, pair_disk = f\<rparr>
     | PairTick f \<Rightarrow> \<lparr>outcome = PairDone, pair_killed = True, pair_exited = False, pair_disk = f\<rparr>)"

lemma pair_loop_find:
  "pair_loop p evs = map_option (end_of_attempt p) (find (ends_attempt p) evs)"
  by (induction p evs rule: pair_loop.induct) (auto simp: ends_attempt_def end_of_attempt_def)

lemma pair_exit_outcome:
  "outcome (pair_exit p e f) = (if ExitCode e = 0 then PairDone else if ExitCode e = 10 then PairExpired else PairRetry)"
  "pair_exited (pair_exit p e f)" "\<not> pair_killed (pair_exit p e f)"
  by (simp_all add: pair_exit_def Let_def)


lemma Drive_waits:
  "length (snd (Drive as b m)) = n \<Longrightarrow> snd (Drive as b m) = map (schedule soloist_NextBackoff m b) [0..<n]"
proof (induction as arbitrary: b n)
  case (Cons x as)
  obtain r w where x: "x = (r, w)" by (cases x)
  show ?case
  proof (cases "r = PairRetry \<and> soloist_sleep w")
    case False
    then show ?thesis using Cons.prems by (auto simp: x split: if_splits)
  next
    case True
    let ?d = "Drive as (soloist_NextBackoff b m) m"
    have ih: "snd ?d = map (schedule soloist_NextBackoff m (soloist_NextBackoff b m)) [0..<length (snd ?d)]"
      by (rule Cons.IH) simp
    have n: "n = Suc (length (snd ?d))" and s: "snd (Drive (x # as) b m) = b # snd ?d"
      using True Cons.prems by (auto simp: x)
    have "[0..<n] = 0 # map Suc [0..<length (snd ?d)]"
      unfolding n by (simp add: upt_conv_Cons map_Suc_upt del: upt_Suc)
    then show ?thesis using ih s by (simp add: schedule_Suc2 comp_def)
  qed
qed simp

lemma Drive_result:
  "fst (Drive as b m) =
    (case dropWhile (\<lambda>(r, w). r = PairRetry \<and> soloist_sleep w) as of
       [] \<Rightarrow> None
     | (r, w) # _ \<Rightarrow> Some (if r = PairRetry then PairCanceled else r))"
proof (induction as arbitrary: b)
  case (Cons x as)
  then show ?case
    by (cases x; cases "fst x = PairRetry"; cases "soloist_sleep (snd x)") simp_all
qed simp

text \<open>C38: the pairing loop repeats only failed attempts and waits between them along the
  exponential schedule: it returns the first outcome that is not a retry, or reports
  cancellation when a wait is interrupted; never runs an attempt after an expiry; and its
  \<open>i\<close>-th wait is the initial backoff doubled \<open>i\<close> times, capped at the maximum.\<close>

theorem Drive_correct:
  assumes "0 < sint initial" and "sint initial \<le> sint maxb"
  shows "fst (Drive as initial maxb) =
      (case dropWhile (\<lambda>(r, w). r = PairRetry \<and> soloist_sleep w) as of
         [] \<Rightarrow> None
       | (r, w) # _ \<Rightarrow> Some (if r = PairRetry then PairCanceled else r))
    \<and> fst (Drive as initial maxb) \<noteq> Some PairRetry
    \<and> (\<forall>i < length (snd (Drive as initial maxb)).
         sint (snd (Drive as initial maxb) ! i) = min (2 ^ i * sint initial) (sint maxb))
    \<and> length (snd (Drive as initial maxb)) =
         length (takeWhile (\<lambda>(r, w). r = PairRetry \<and> soloist_sleep w) as)
         + (if \<exists>w bs. dropWhile (\<lambda>(r, w). r = PairRetry \<and> soloist_sleep w) as = (PairRetry, w) # bs then 1 else 0)"
proof -
  let ?ws = "snd (Drive as initial maxb)"
  have "sint (?ws ! i) = min (2 ^ i * sint initial) (sint maxb)" if "i < length ?ws" for i
  proof -
    have "?ws ! i = schedule soloist_NextBackoff maxb initial i"
      using Drive_waits [OF refl, of as initial maxb] that by (metis add_0 nth_map_upt diff_zero)
    then show ?thesis using soloist_bo.closed_form [OF assms] by simp
  qed
  moreover have "length (snd (Drive as b maxb)) =
         length (takeWhile (\<lambda>(r, w). r = PairRetry \<and> soloist_sleep w) as)
         + (if \<exists>w bs. dropWhile (\<lambda>(r, w). r = PairRetry \<and> soloist_sleep w) as = (PairRetry, w) # bs then 1 else 0)" for b
    by (induction as arbitrary: b) auto
  moreover have "fst (Drive as initial maxb) \<noteq> Some PairRetry"
    unfolding Drive_result by (auto split: list.splits prod.splits)
  ultimately show ?thesis using Drive_result by simp
qed

section \<open>Concrete inputs\<close>

definition demo_pairer :: Pairer where
  "demo_pairer = \<lparr>PairBinaryPath = ''/data/bin/soloist'', PairDeviceName = ''box'', PairAPIKey = ''key'',
     PairDataDir = ''/data'', PairCacheDir = ''/cache'', PairChecker = None,
     PairBinary = Some demo_manager, PollInterval = 0\<rparr>"

lemma demo_pair_run:
  "Pair demo_pairer None demo_installed [PairTick demo_installed, PairExit (Some (ErrExit 10)) demo_installed]
    = Some (pair_exit demo_pairer (Some (ErrExit 10)) demo_installed)"
proof -
  have "path_Join [''/data'', ''settings/Users''] = ''/data/settings/Users''" by code_simp
  then have "Check (checker_dir demo_pairer) demo_installed = StateUnpaired"
    by (simp add: Check_def checker_dir_def demo_pairer_def sessionUsersRel_def demo_installed_def demo_dirs_def
        os_Stat_def del: path_Join.simps)
  then show ?thesis by (simp add: Pair_def)
qed


theorem Drive_correct_witness:
  "fst (Drive [(PairRetry, TimerFired), (PairRetry, TimerFired), (PairDone, CtxDone)] (5 * second) (8 * second)) = Some PairDone
   \<and> length (snd (Drive [(PairRetry, TimerFired), (PairRetry, TimerFired), (PairDone, CtxDone)] (5 * second) (8 * second))) = 2"
  using Drive_correct [of "5 * second" "8 * second" "[(PairRetry, TimerFired), (PairRetry, TimerFired), (PairDone, CtxDone)]"]
  by (simp add: soloist_sleep_def)

end
