(* ===== verification/Pulse.thy ===== *)
theory Pulse imports GoPath ProcessModel Backoff Recorder begin

text \<open>
  \<open>internal/audio/pulse.go\<close>: the PulseAudio daemon. The first half are the functions of one
  bring-up (environment, stale files, launcher, socket, sink, default sink) on the answers of
  the operating system and of \<open>pactl\<close>. The second half is the interleaving of the supervision
  loop \<open>Run\<close> with a concurrent \<open>Stop\<close>: both are program counters over the shared fields the
  mutex protects, one transition per critical section or blocking call.
\<close>

section \<open>Configuration\<close>

record PulseConf =
  HomeDir :: string
  XDGRuntimeDir :: string
  ReadyTimeout :: duration
  PulseStartBackoff :: duration
  PulseMaxBackoff :: duration
  ProbeInterval :: duration
  StopGrace :: duration
  PulseHasHealth :: bool

definition PulseNotReady :: string where "PulseNotReady = ''pulseaudio_not_ready''"
definition SinkName :: string where "SinkName = ''virtual_out''"

definition homeDir :: "PulseConf \<Rightarrow> string" where
  "homeDir p = (if HomeDir p \<noteq> [] then HomeDir p else ''/tmp/home'')"

definition runtimeDir :: "PulseConf \<Rightarrow> string" where
  "runtimeDir p = (if XDGRuntimeDir p \<noteq> [] then XDGRuntimeDir p else ''/tmp/runtime'')"

definition readyTimeout :: "PulseConf \<Rightarrow> duration" where
  "readyTimeout p = (if sint (ReadyTimeout p) > 0 then ReadyTimeout p else 10 * second)"

definition pulse_startBackoff :: "PulseConf \<Rightarrow> duration" where
  "pulse_startBackoff p = (if sint (PulseStartBackoff p) > 0 then PulseStartBackoff p else 5 * second)"

definition pulse_maxBackoff :: "PulseConf \<Rightarrow> duration" where
  "pulse_maxBackoff p = (if sint (PulseMaxBackoff p) > 0 then PulseMaxBackoff p else 60 * second)"

definition probeInterval :: "PulseConf \<Rightarrow> duration" where
  "probeInterval p = (if sint (ProbeInterval p) > 0 then ProbeInterval p else 2 * second)"

definition stopGrace :: "PulseConf \<Rightarrow> duration" where
  "stopGrace p = (if sint (StopGrace p) > 0 then StopGrace p else 3 * second)"

definition daemonArgs :: "string list" where
  "daemonArgs =
    [''--exit-idle-time=-1'', ''-n'', ''--load=module-native-protocol-unix'',
     ''--load=module-null-sink sink_name='' @ SinkName @ '' rate='' @ Itoa (int SampleRate)
       @ '' channels=2 sink_properties=device.description=Shim_Sink'',
     ''--daemonize=yes'', ''--log-target=stderr'']"

section \<open>Environment and files\<close>

type_synonym environ = "string \<Rightarrow> string"

definition socket_path :: "PulseConf \<Rightarrow> string" where
  "socket_path p = path_Join [runtimeDir p, ''pulse'', ''native'']"

definition pid_path :: "PulseConf \<Rightarrow> string" where
  "pid_path p = path_Join [runtimeDir p, ''pulse'', ''pid'']"

definition SetupEnv :: "goerror \<Rightarrow> goerror \<Rightarrow> int \<Rightarrow> PulseConf \<Rightarrow> environ \<Rightarrow> fs \<Rightarrow> goerror \<times> environ \<times> fs" where
  "SetupEnv r1 r2 now p env f =
    (case os_MkdirAll r1 now (homeDir p) f of
       (Some e, g) \<Rightarrow> (Some e, env, g)
     | (None, g) \<Rightarrow>
        (case os_MkdirAll r2 now (runtimeDir p) g of
           (Some e, h) \<Rightarrow> (Some e, env, h)
         | (None, h) \<Rightarrow>
            (None, env(''HOME'' := homeDir p, ''XDG_RUNTIME_DIR'' := runtimeDir p,
                       ''PULSE_SERVER'' := ''unix:'' @ socket_path p), h)))"

definition removeStaleRuntime :: "PulseConf \<Rightarrow> fs \<Rightarrow> fs" where
  "removeStaleRuntime p f = snd (os_Remove None (pid_path p) (snd (os_Remove None (socket_path p) f)))"

definition daemonPID :: "PulseConf \<Rightarrow> fs \<Rightarrow> int option" where
  "daemonPID p f = (case os_ReadFile f (pid_path p) of Inl e \<Rightarrow> None | Inr raw \<Rightarrow> Atoi (TrimSpace raw))"

definition daemonAlive :: "PulseConf \<Rightarrow> fs \<Rightarrow> bool" where
  "daemonAlive p f =
    (case daemonPID p f of
       None \<Rightarrow> False
     | Some pid \<Rightarrow>
        (case os_ReadFile f (path_Join [''/proc'', Itoa pid, ''comm'']) of
           Inl e \<Rightarrow> False
         | Inr comm \<Rightarrow> HasPrefix (TrimSpace comm) ''pulseaudio''))"

section \<open>pactl and the sink\<close>

text \<open>One run of \<open>pactl\<close>: whether it could be started, what it printed, how it ended.\<close>

record pactl_answer =
  pactl_start :: goerror
  pactl_proc :: proc

definition pactlRun :: "pactl_answer \<Rightarrow> string \<times> goerror" where
  "pactlRun a =
    (case pactl_start a of
       Some e \<Rightarrow> ([], Some e)
     | None \<Rightarrow> (stdout (pactl_proc a), wait_err (pactl_proc a)))"

definition line_lists_sink :: "string \<Rightarrow> bool" where
  "line_lists_sink line = (let fields = Fields line in 2 \<le> length fields \<and> fields ! 1 = SinkName)"

definition sinkListed :: "string \<Rightarrow> bool" where
  "sinkListed out = list_ex line_lists_sink (SplitOn CHR 0x0A out)"

definition defaultPactlRetries :: nat where "defaultPactlRetries = 5"

text \<open>The retry loop: \<open>n\<close> tries left, answers by try; the last error is the result when none
  succeeds.\<close>

fun sink_tries :: "nat \<Rightarrow> nat \<Rightarrow> (nat \<Rightarrow> pactl_answer) \<Rightarrow> goerror \<Rightarrow> goerror" where
  "sink_tries 0 i ans lastErr = lastErr"
| "sink_tries (Suc n) i ans lastErr =
    (case pactlRun (ans i) of
       (out, Some e) \<Rightarrow> sink_tries n (Suc i) ans (Some e)
     | (out, None) \<Rightarrow>
        (if sinkListed out then None
         else sink_tries n (Suc i) ans (Some (ErrText ''virtual_out sink not found''))))"

definition waitSinkReady :: "(nat \<Rightarrow> pactl_answer) \<Rightarrow> goerror" where
  "waitSinkReady ans = sink_tries defaultPactlRetries 0 ans None"

section \<open>The native socket\<close>

datatype sock_event = SockExit goerror | SockTimeout | SockTick fs

definition errSocketTimeout :: goerr where
  "errSocketTimeout = ErrSentinel ''pulseaudio native socket did not appear in time''"

text \<open>The events of the waiting \<open>select\<close>: \<open>None\<close> while none of them decides.\<close>

fun waitForSocket :: "PulseConf \<Rightarrow> sock_event list \<Rightarrow> goerror option" where
  "waitForSocket p [] = None"
| "waitForSocket p (SockExit e # evs) =
    (if ExitCode e \<noteq> 0 then Some (Some (case e of None \<Rightarrow> ErrText [] | Some x \<Rightarrow> ErrWrap ''pulseaudio failed to daemonize'' x))
     else waitForSocket p evs)"
| "waitForSocket p (SockTimeout # evs) = Some (Some errSocketTimeout)"
| "waitForSocket p (SockTick f # evs) =
    (case os_Stat f (socket_path p) of Inr i \<Rightarrow> Some None | Inl e \<Rightarrow> waitForSocket p evs)"

section \<open>One bring-up\<close>

record bringup =
  setup_err :: goerror
  launch_err :: goerror
  sock_events :: "sock_event list"
  sink_answers :: "nat \<Rightarrow> pactl_answer"
  default_answer :: pactl_answer

datatype pulse_call = LaunchDaemon "string list" | Pactl "string list"

definition shutdown_call :: pulse_call where "shutdown_call = Pactl [''exit'']"

text \<open>
  The commands after the socket appeared, and the error. The listing command is issued once
  per try; only the number of tries matters for it.
\<close>

definition startDaemon :: "PulseConf \<Rightarrow> bringup \<Rightarrow> (goerror \<times> pulse_call list) option" where
  "startDaemon p b =
    (case setup_err b of
       Some e \<Rightarrow> Some (Some (ErrWrap ''prepare env'' e), [])
     | None \<Rightarrow>
    (case launch_err b of
       Some e \<Rightarrow> Some (Some (ErrWrap ''start pulseaudio'' e), [])
     | None \<Rightarrow>
    (case waitForSocket p (sock_events b) of
       None \<Rightarrow> None
     | Some (Some e) \<Rightarrow> Some (Some e, [LaunchDaemon daemonArgs])
     | Some None \<Rightarrow>
    (case waitSinkReady (sink_answers b) of
       Some e \<Rightarrow> Some (Some e, [LaunchDaemon daemonArgs, shutdown_call])
     | None \<Rightarrow>
    (case pactlRun (default_answer b) of
       (out, Some e) \<Rightarrow> Some (Some (ErrWrap ''set default sink'' e),
          [LaunchDaemon daemonArgs, Pactl [''set-default-sink'', SinkName], shutdown_call])
     | (out, None) \<Rightarrow> Some (None, [LaunchDaemon daemonArgs, Pactl [''set-default-sink'', SinkName]]))))))"

section \<open>Run and Stop\<close>

text \<open>The loops that wait for the daemon, on the events of their tickers.\<close>

fun waitDaemonGone :: "bool list \<Rightarrow> bool \<Rightarrow> bool" where
  "waitDaemonGone [] at_deadline = (\<not> at_deadline)"
| "waitDaemonGone (alive # ticks) at_deadline = (if \<not> alive then True else waitDaemonGone ticks at_deadline)"

datatype run_pc = RTop | RStarting | RWatch | RDown | RSleep | RReturned
datatype stop_pc = NotStopped | StopReady | StopExit | StopSignal | StopWait | StopDone

datatype signal = SIGTERM | SIGKILL

record pulse_sys =
  ready :: bool
  stopping :: bool
  attempt_no :: nat
  run_at :: run_pc
  stop_at :: stop_pc
  pulse_backoff :: duration
  pulse_waits :: "duration list"
  pulse_health :: "string list"
  signals :: "(int \<times> signal) list"
  pulse_cancelled :: bool
  launches :: nat

definition pulse_init :: "PulseConf \<Rightarrow> pulse_sys" where
  "pulse_init p =
    \<lparr>ready = False, stopping = False, attempt_no = 0, run_at = RTop, stop_at = NotStopped,
     pulse_backoff = pulse_startBackoff p, pulse_waits = [], pulse_health = [], signals = [],
     pulse_cancelled = False, launches = 0\<rparr>"

definition pulse_setReady :: "bool \<Rightarrow> pulse_sys \<Rightarrow> pulse_sys" where
  "pulse_setReady v s = s\<lparr>ready := v\<rparr>"

definition pulse_setHealth :: "PulseConf \<Rightarrow> string \<Rightarrow> pulse_sys \<Rightarrow> pulse_sys" where
  "pulse_setHealth p r s = (if PulseHasHealth p then s\<lparr>pulse_health := pulse_health s @ [r]\<rparr> else s)"

definition Ready :: "pulse_sys \<Rightarrow> bool" where
  "Ready s = ready s"

text \<open>What follows a bring-up in both \<open>Start\<close> and \<open>Run\<close>: the ready flag and the health report.\<close>

definition report_start :: "PulseConf \<Rightarrow> goerror \<Rightarrow> pulse_sys \<Rightarrow> pulse_sys" where
  "report_start p err s =
    (case err of
       Some e \<Rightarrow> pulse_setHealth p PulseNotReady (pulse_setReady False s)
     | None \<Rightarrow> pulse_setHealth p [] (pulse_setReady True s))"

definition count_launch :: "pulse_call list \<Rightarrow> pulse_sys \<Rightarrow> pulse_sys" where
  "count_launch calls s =
    s\<lparr>launches := launches s + length (filter (\<lambda>k. case k of LaunchDaemon _ \<Rightarrow> True | _ \<Rightarrow> False) calls)\<rparr>"

definition pulse_Start :: "PulseConf \<Rightarrow> bringup \<Rightarrow> pulse_sys \<Rightarrow> (goerror \<times> pulse_sys) option" where
  "pulse_Start p b s =
    (case startDaemon p b of
       None \<Rightarrow> None
     | Some (err, calls) \<Rightarrow> Some (err, report_start p err (count_launch calls s)))"

text \<open>One turn of the \<open>select\<close> of \<open>waitDaemonDown\<close>: \<open>None\<close> when the loop goes on.\<close>

definition isStopping :: "pulse_sys \<Rightarrow> bool" where
  "isStopping s = stopping s"

datatype down_event = DownCtx | DownTick bool

fun waitDaemonDown :: "down_event \<Rightarrow> pulse_sys \<Rightarrow> bool option" where
  "waitDaemonDown DownCtx s = Some False"
| "waitDaemonDown (DownTick alive) s = (if isStopping s then Some False else if \<not> alive then Some True else None)"

text \<open>
  The actions of \<open>Run\<close> and of \<open>Stop\<close>. \<open>StopReply\<close> carries the answer of \<open>pactl exit\<close> and whether
  the daemon was gone within the grace period; \<open>StopPid\<close> the daemon's PID, when it can be read.
\<close>

datatype pulse_act =
    RunTop | RunStart bringup | RunProbe bool | RunCtx | RunDown | RunWake wake
  | StopCall | StopClear | StopReply pactl_answer "bool list" bool | StopPid "int option" | StopGone
  | PulseCancel

definition watched :: "bool option \<Rightarrow> pulse_sys \<Rightarrow> pulse_sys" where
  "watched down s = (case down of None \<Rightarrow> s | Some d \<Rightarrow> s\<lparr>run_at := (if d then RDown else RReturned)\<rparr>)"

definition step_run :: "PulseConf \<Rightarrow> pulse_act \<Rightarrow> pulse_sys \<Rightarrow> pulse_sys option" where
  "step_run p a s =
    (case a of
       RunTop \<Rightarrow>
         (if run_at s \<noteq> RTop then None
          else if pulse_cancelled s \<or> isStopping s then Some (s\<lparr>run_at := RReturned\<rparr>)
          else Some (s\<lparr>run_at := RStarting, attempt_no := Suc (attempt_no s)\<rparr>))
     | RunStart b \<Rightarrow>
         (if run_at s \<noteq> RStarting then None
          else (case pulse_Start p b s of None \<Rightarrow> None | Some (err, t) \<Rightarrow> Some (t\<lparr>run_at := RWatch\<rparr>)))
     | RunProbe alive \<Rightarrow>
         (if run_at s \<noteq> RWatch then None
          else Some (watched (waitDaemonDown (DownTick alive) s) s))
     | RunCtx \<Rightarrow>
         (if run_at s \<noteq> RWatch \<or> \<not> pulse_cancelled s then None else Some (watched (waitDaemonDown DownCtx s) s))
     | RunDown \<Rightarrow>
         (if run_at s \<noteq> RDown then None
          else if isStopping s then Some (s\<lparr>run_at := RReturned\<rparr>)
          else Some ((pulse_setHealth p PulseNotReady (pulse_setReady False s))
                     \<lparr>run_at := RSleep, pulse_waits := pulse_waits s @ [pulse_backoff s]\<rparr>))
     | RunWake w \<Rightarrow>
         (if run_at s \<noteq> RSleep \<or> (w = CtxDone \<and> \<not> pulse_cancelled s) then None
          else if \<not> audio_sleep w then Some (s\<lparr>run_at := RReturned\<rparr>)
          else Some (s\<lparr>run_at := RTop, pulse_backoff := audio_NextBackoff (pulse_backoff s) (pulse_maxBackoff p)\<rparr>))
     | _ \<Rightarrow> None)"

definition step_stop :: "pulse_act \<Rightarrow> pulse_sys \<Rightarrow> pulse_sys option" where
  "step_stop a s =
    (case a of
       StopCall \<Rightarrow> Some (if stopping s then s else s\<lparr>stopping := True, stop_at := StopReady\<rparr>)
     | StopClear \<Rightarrow>
         (if stop_at s = StopReady then Some ((pulse_setReady False s)\<lparr>stop_at := StopExit\<rparr>) else None)
     | StopReply ans ticks late \<Rightarrow>
         (if stop_at s \<noteq> StopExit then None
          else if snd (pactlRun ans) = None \<and> waitDaemonGone ticks late then Some (s\<lparr>stop_at := StopDone\<rparr>)
          else Some (s\<lparr>stop_at := StopSignal\<rparr>))
     | StopPid pid \<Rightarrow>
         (if stop_at s \<noteq> StopSignal then None
          else Some (s\<lparr>stop_at := StopWait,
                       signals := signals s @ (case pid of None \<Rightarrow> [] | Some n \<Rightarrow> [(n, SIGTERM), (n, SIGKILL)])\<rparr>))
     | StopGone \<Rightarrow> (if stop_at s = StopWait then Some (s\<lparr>stop_at := StopDone\<rparr>) else None)
     | _ \<Rightarrow> None)"

definition pulse_step :: "PulseConf \<Rightarrow> pulse_act \<Rightarrow> pulse_sys \<Rightarrow> pulse_sys option" where
  "pulse_step p a s =
    (case a of
       PulseCancel \<Rightarrow> Some (s\<lparr>pulse_cancelled := True\<rparr>)
     | _ \<Rightarrow> (case step_run p a s of Some t \<Rightarrow> Some t | None \<Rightarrow> step_stop a s))"

fun pulse_run :: "PulseConf \<Rightarrow> pulse_act list \<Rightarrow> pulse_sys \<Rightarrow> pulse_sys option" where
  "pulse_run p [] s = Some s"
| "pulse_run p (a # as) s = (case pulse_step p a s of None \<Rightarrow> None | Some t \<Rightarrow> pulse_run p as t)"

inductive pulse_reach :: "PulseConf \<Rightarrow> pulse_sys \<Rightarrow> bool" for p where
  pulse_zero: "pulse_reach p (pulse_init p)"
| pulse_next: "pulse_reach p s \<Longrightarrow> pulse_step p a s = Some t \<Longrightarrow> pulse_reach p t"

inductive_cases pulse_reachE: "pulse_reach p s"

lemma watched_simps [simp]:
  "isStopping s = stopping s" "watched None s = s" "watched (Some d) s = s\<lparr>run_at := (if d then RDown else RReturned)\<rparr>"
  by (simp_all add: isStopping_def watched_def)

lemma pulse_run_reach: "pulse_run p as s = Some t \<Longrightarrow> pulse_reach p s \<Longrightarrow> pulse_reach p t"
  by (induction as arbitrary: s) (auto split: option.splits intro: pulse_reach.intros)

section \<open>The bring-up is correct\<close>

lemma sink_tries_ok:
  "sink_tries n i ans e = None \<longleftrightarrow>
    (n = 0 \<and> e = None) \<or> (\<exists>k < n. snd (pactlRun (ans (i + k))) = None \<and> sinkListed (fst (pactlRun (ans (i + k)))))"
proof (induction n arbitrary: i e)
  case (Suc n)
  obtain out err where r: "pactlRun (ans i) = (out, err)" by (cases "pactlRun (ans i)")
  have ex: "(\<exists>k < Suc n. P (i + k)) \<longleftrightarrow> P i \<or> (\<exists>k < n. P (Suc i + k))" for P
  proof
    assume "\<exists>k < Suc n. P (i + k)"
    then obtain k where "k < Suc n" "P (i + k)" by blast
    then show "P i \<or> (\<exists>k < n. P (Suc i + k))" by (cases k) auto
  next
    assume "P i \<or> (\<exists>k < n. P (Suc i + k))"
    then show "\<exists>k < Suc n. P (i + k)"
      by (elim disjE exE conjE) (rule exI [of _ 0], simp, rule_tac x = "Suc k" in exI, simp)
  qed
  show ?case
    unfolding ex [of "\<lambda>j. snd (pactlRun (ans j)) = None \<and> sinkListed (fst (pactlRun (ans j)))"]
    by (cases err) (auto simp: r Suc.IH)
qed simp

lemma waitForSocket_ok:
  "waitForSocket p evs = Some None \<Longrightarrow> \<exists>f i. SockTick f \<in> set evs \<and> f (socket_path p) = Some i"
proof (induction p evs rule: waitForSocket.induct)
  case (2 p e evs)
  then show ?case by (auto split: if_splits)
next
  case (4 p f evs)
  then show ?case by (cases "f (socket_path p)") (auto simp: os_Stat_def)
qed auto

text \<open>C33: a bring-up succeeds only when everything was verified (environment prepared, launcher
  started, native socket seen, the virtual sink listed in one of five tries, default sink
  set). A bring-up that fails after its launcher was started asks the daemon to exit, except
  when the socket did not appear: then the daemon it launched is left alone.\<close>

theorem startDaemon_verified:
  assumes "startDaemon p b = Some (err, calls)"
  shows "(err = None \<longrightarrow> setup_err b = None \<and> launch_err b = None
      \<and> (\<exists>f i. SockTick f \<in> set (sock_events b) \<and> f (socket_path p) = Some i)
      \<and> (\<exists>k < 5. snd (pactlRun (sink_answers b k)) = None \<and> sinkListed (fst (pactlRun (sink_answers b k))))
      \<and> snd (pactlRun (default_answer b)) = None)
    \<and> (err \<noteq> None \<and> LaunchDaemon daemonArgs \<in> set calls \<longrightarrow>
        (shutdown_call \<notin> set calls \<longleftrightarrow> (\<exists>e. waitForSocket p (sock_events b) = Some (Some e))))"
proof -
  have sink: "(\<exists>k < 5. snd (pactlRun (sink_answers b k)) = None \<and> sinkListed (fst (pactlRun (sink_answers b k))))"
    if "waitSinkReady (sink_answers b) = None"
    using that sink_tries_ok [of 5 0 "sink_answers b" None] by (simp add: waitSinkReady_def defaultPactlRetries_def)
  show ?thesis
    using assms sink waitForSocket_ok [of p "sock_events b"]
    by (auto simp: startDaemon_def shutdown_call_def split: option.splits prod.splits)
qed

text \<open>The listing \<open>pactl list sinks short\<close> prints: index, name and module separated by tabs.\<close>

definition sink_line :: "string \<times> string \<times> string \<Rightarrow> string" where
  "sink_line e = fst e @ CHR 0x09 # fst (snd e) @ CHR 0x09 # snd (snd e)"

fun sink_listing :: "(string \<times> string \<times> string) list \<Rightarrow> string" where
  "sink_listing [] = []"
| "sink_listing (e # es) = sink_line e @ CHR 0x0A # sink_listing es"

definition word :: "string \<Rightarrow> bool" where
  "word w \<longleftrightarrow> w \<noteq> [] \<and> list_all solid w"

lemma solid_not_newline: "solid c \<Longrightarrow> c \<noteq> CHR 0x0A"
  by (auto simp: solid_def space_runes_def)

lemma Fields_sink_line:
  assumes "word i" "word n" "word m"
  shows "Fields (sink_line (i, n, m)) = [i, n, m]"
proof -
  have "FieldsFrom [] (m @ []) = [m]" using assms(3) by (subst FieldsFrom_word) (auto simp: word_def)
  then have m: "FieldsFrom [] m = [m]" by simp
  show ?thesis
    using assms m unfolding word_def
    by (simp add: Fields_def sink_line_def FieldsFrom_word FieldsFrom_tab del: FieldsFrom.simps)
qed

lemma newline_free: "list_all solid w \<Longrightarrow> CHR 0x0A \<notin> set w"
  using solid_not_newline by (auto simp: list_all_iff)

lemma sink_listing_listed:
  assumes "\<forall>e \<in> set es. word (fst e) \<and> word (fst (snd e)) \<and> word (snd (snd e))"
  shows "sinkListed (sink_listing es) \<longleftrightarrow> (\<exists>e \<in> set es. fst (snd e) = SinkName)"
  using assms
proof (induction es)
  case Nil
  show ?case by (simp add: sinkListed_def line_lists_sink_def Fields_def)
next
  case (Cons e es)
  obtain i n m where e: "e = (i, n, m)" by (cases e)
  have w: "word i" "word n" "word m" using Cons.prems e by auto
  then have "CHR 0x0A \<notin> set (sink_line e)" by (auto simp: e sink_line_def word_def dest: newline_free)
  then have "SplitOn CHR 0x0A (sink_listing (e # es)) = sink_line e # SplitOn CHR 0x0A (sink_listing es)"
    by (simp add: SplitOn_sep)
  moreover have "line_lists_sink (sink_line e) \<longleftrightarrow> n = SinkName"
    by (simp add: e line_lists_sink_def Fields_sink_line [OF w] Let_def)
  ultimately show ?case using Cons by (simp add: sinkListed_def e)
qed

text \<open>the sink check is exact on what \<open>pactl\<close> prints: for every listing of sinks with
  well-formed columns, it answers yes precisely when one of the sinks is named \<open>virtual_out\<close>,
  whatever the order, the indices and the modules.\<close>

theorem sinkListed_exact:
  assumes "\<forall>e \<in> set es. word (fst e) \<and> word (fst (snd e)) \<and> word (snd (snd e))"
  shows "sinkListed (sink_listing es) \<longleftrightarrow> (\<exists>e \<in> set es. fst (snd e) = SinkName)"
  using assms by (rule sink_listing_listed)

section \<open>The contract of the audio daemon\<close>

text \<open>\<open>Stop\<close> as one call, up to the flag it clears: a second call returns at once.\<close>

definition pulse_Stop :: "pulse_sys \<Rightarrow> pulse_sys" where
  "pulse_Stop s =
    (case step_stop StopCall s of
       None \<Rightarrow> s
     | Some t \<Rightarrow> (if stopping s then t else (case step_stop StopClear t of None \<Rightarrow> t | Some u \<Rightarrow> u)))"

datatype 'b daemon_call = CallStart 'b | CallStop

locale audio_daemon =
  fixes start :: "'b \<Rightarrow> 's \<Rightarrow> (goerror \<times> 's) option"
    and is_ready :: "'s \<Rightarrow> bool"
    and stop :: "'s \<Rightarrow> 's"
    and stop_begun :: "'s \<Rightarrow> bool"
  assumes start_ready: "start b s = Some (err, t) \<Longrightarrow> is_ready t \<longleftrightarrow> err = None"
    and start_keeps: "start b s = Some (err, t) \<Longrightarrow> stop_begun t = stop_begun s"
    and stop_first: "\<not> stop_begun s \<Longrightarrow> \<not> is_ready (stop s) \<and> stop_begun (stop s)"
    and stop_again: "stop_begun s \<Longrightarrow> stop s = s"
begin

fun calls :: "'b daemon_call list \<Rightarrow> 's \<Rightarrow> (goerror list \<times> 's) option" where
  "calls [] s = Some ([], s)"
| "calls (CallStart b # cs) s =
    (case start b s of None \<Rightarrow> None
     | Some (err, t) \<Rightarrow> (case calls cs t of None \<Rightarrow> None | Some (es, u) \<Rightarrow> Some (err # es, u)))"
| "calls (CallStop # cs) s = calls cs (stop s)"

lemma ready_after_start: "calls (cs @ [CallStart b]) s = Some (es, t) \<Longrightarrow> is_ready t \<longleftrightarrow> last es = None"
proof (induction cs arbitrary: s es)
  case Nil
  then show ?case using start_ready [of b s] by (auto split: option.splits)
next
  case (Cons c cs)
  have ne: "calls (cs @ [CallStart b]) u = Some (es', t) \<Longrightarrow> es' \<noteq> []" for u es'
  proof (induction cs arbitrary: u es')
    case (Cons d ds)
    then show ?case by (cases d) (auto split: option.splits)
  qed (auto split: option.splits)
  from Cons show ?case using ne by (cases c) (auto split: option.splits)
qed

lemma stop_begun_mono: "calls cs s = Some (es, t) \<Longrightarrow> stop_begun s \<Longrightarrow> stop_begun t"
proof (induction cs arbitrary: s es)
  case (Cons c cs)
  show ?case
  proof (cases c)
    case (CallStart b)
    then obtain err u es' where "start b s = Some (err, u)" "calls cs u = Some (es', t)"
      using Cons.prems by (auto split: option.splits)
    then show ?thesis using Cons.IH Cons.prems start_keeps by metis
  next
    case CallStop
    then show ?thesis using Cons stop_again by simp
  qed
qed simp

lemma stop_seen: "calls cs s = Some (es, t) \<Longrightarrow> CallStop \<in> set cs \<Longrightarrow> stop_begun t"
proof (induction cs arbitrary: s es)
  case (Cons c cs)
  show ?case
  proof (cases c)
    case (CallStart b)
    then show ?thesis using Cons by (auto split: option.splits)
  next
    case CallStop
    have "stop_begun (stop s)" using stop_first stop_again by (cases "stop_begun s") auto
    then show ?thesis using CallStop Cons.prems stop_begun_mono by auto
  qed
qed simp

end

lemma report_start_simps [simp]:
  "ready (report_start p err s) \<longleftrightarrow> err = None" "stopping (report_start p err s) = stopping s"
  "attempt_no (report_start p err s) = attempt_no s" "run_at (report_start p err s) = run_at s"
  "stop_at (report_start p err s) = stop_at s" "pulse_backoff (report_start p err s) = pulse_backoff s"
  "pulse_waits (report_start p err s) = pulse_waits s" "launches (report_start p err s) = launches s"
  "pulse_cancelled (report_start p err s) = pulse_cancelled s" "signals (report_start p err s) = signals s"
  "pulse_health (report_start p err s) = pulse_health s @ (if PulseHasHealth p then [if err = None then [] else PulseNotReady] else [])"
  by (cases err; simp add: report_start_def pulse_setHealth_def pulse_setReady_def)+

lemma count_launch_simps [simp]:
  "ready (count_launch k s) = ready s" "stopping (count_launch k s) = stopping s"
  "attempt_no (count_launch k s) = attempt_no s" "run_at (count_launch k s) = run_at s"
  "stop_at (count_launch k s) = stop_at s" "pulse_backoff (count_launch k s) = pulse_backoff s"
  "pulse_waits (count_launch k s) = pulse_waits s" "pulse_health (count_launch k s) = pulse_health s"
  "pulse_cancelled (count_launch k s) = pulse_cancelled s" "signals (count_launch k s) = signals s"
  by (simp_all add: count_launch_def)

lemma pulse_Start_Some:
  "pulse_Start p b s = Some (err, t) \<longleftrightarrow>
    (\<exists>calls. startDaemon p b = Some (err, calls) \<and> t = report_start p err (count_launch calls s))"
  by (auto simp: pulse_Start_def split: option.splits)

interpretation pulse_daemon: audio_daemon "pulse_Start p" Ready pulse_Stop stopping
  by unfold_locales
    (auto simp: pulse_Start_Some Ready_def pulse_Stop_def step_stop_def pulse_setReady_def)

text \<open>the daemon's contract, for every sequence of calls: after \<open>Start\<close> the daemon is ready
  exactly when \<open>Start\<close> returned no error; the first \<open>Stop\<close> makes it not ready; but \<open>Stop\<close> works
  once only: a \<open>Start\<close> that succeeds after it leaves the daemon ready and a second \<open>Stop\<close> does
  nothing.\<close>

theorem pulse_contract:
  assumes "pulse_daemon.calls p (cs @ [CallStart b]) s = Some (es, t)"
  shows "(Ready t \<longleftrightarrow> last es = None)
    \<and> (\<not> stopping t \<longrightarrow> \<not> Ready (pulse_Stop t))
    \<and> (CallStop \<in> set cs \<and> last es = None \<longrightarrow> pulse_Stop t = t \<and> Ready (pulse_Stop t))"
proof -
  have 1: "Ready t \<longleftrightarrow> last es = None" by (rule pulse_daemon.ready_after_start [OF assms])
  have 2: "\<not> stopping t \<longrightarrow> \<not> Ready (pulse_Stop t)" using pulse_daemon.stop_first by blast
  have "stopping t" if "CallStop \<in> set cs"
    using pulse_daemon.stop_seen [OF assms] that by simp
  then show ?thesis using 1 2 pulse_daemon.stop_again by metis
qed

section \<open>Supervision and its interleaving with Stop\<close>

lemmas pulse_step_defs = pulse_step_def step_run_def step_stop_def pulse_setReady_def pulse_setHealth_def

text \<open>The transitions by shape.\<close>

lemma pulse_step_cases:
  assumes "pulse_step p a s = Some t"
  obtains (top_end) "a = RunTop" "run_at s = RTop" "pulse_cancelled s \<or> stopping s" "t = s\<lparr>run_at := RReturned\<rparr>"
    | (top_go) "a = RunTop" "run_at s = RTop" "\<not> stopping s" "t = s\<lparr>run_at := RStarting, attempt_no := Suc (attempt_no s)\<rparr>"
    | (started) b err calls where "a = RunStart b" "run_at s = RStarting" "startDaemon p b = Some (err, calls)"
        "t = (report_start p err (count_launch calls s))\<lparr>run_at := RWatch\<rparr>"
    | (probe_end) v where "a = RunProbe v" "run_at s = RWatch" "t = s\<lparr>run_at := RReturned\<rparr>"
    | (probe_dead) "a = RunProbe False" "run_at s = RWatch" "t = s\<lparr>run_at := RDown\<rparr>"
    | (probe_alive) v where "a = RunProbe v" "run_at s = RWatch" "t = s"
    | (watch_ctx) "a = RunCtx" "run_at s = RWatch" "t = s\<lparr>run_at := RReturned\<rparr>"
    | (down_end) "a = RunDown" "run_at s = RDown" "t = s\<lparr>run_at := RReturned\<rparr>"
    | (down) "a = RunDown" "run_at s = RDown" "\<not> stopping s"
        "t = s\<lparr>ready := False, pulse_health := pulse_health s @ (if PulseHasHealth p then [PulseNotReady] else []),
               run_at := RSleep, pulse_waits := pulse_waits s @ [pulse_backoff s]\<rparr>"
    | (wake_end) w where "a = RunWake w" "run_at s = RSleep" "t = s\<lparr>run_at := RReturned\<rparr>"
    | (wake) w where "a = RunWake w" "run_at s = RSleep"
        "t = s\<lparr>run_at := RTop, pulse_backoff := audio_NextBackoff (pulse_backoff s) (pulse_maxBackoff p)\<rparr>"
    | (stop_again) "a = StopCall" "stopping s" "t = s"
    | (stop_first) "a = StopCall" "\<not> stopping s" "t = s\<lparr>stopping := True, stop_at := StopReady\<rparr>"
    | (stop_clear) "a = StopClear" "stop_at s = StopReady" "t = s\<lparr>ready := False, stop_at := StopExit\<rparr>"
    | (stop_reply) x ts l pc where "a = StopReply x ts l" "stop_at s = StopExit" "t = s\<lparr>stop_at := pc\<rparr>" "pc \<noteq> NotStopped"
    | (stop_pid) n sg where "a = StopPid n" "stop_at s = StopSignal" "t = s\<lparr>stop_at := StopWait, signals := sg\<rparr>"
    | (stop_gone) "a = StopGone" "stop_at s = StopWait" "t = s\<lparr>stop_at := StopDone\<rparr>"
    | (cancel) "a = PulseCancel" "t = s\<lparr>pulse_cancelled := True\<rparr>"
proof (cases a)
  case RunTop
  then show ?thesis using assms
    by (auto simp: pulse_step_def step_run_def step_stop_def split: if_splits intro: top_end top_go)
next
  case (RunStart b)
  then show ?thesis using assms
    by (auto simp: pulse_step_def step_run_def step_stop_def pulse_Start_Some split: if_splits option.splits intro: started)
next
  case (RunProbe v)
  then have pc: "run_at s = RWatch" using assms
    by (simp add: pulse_step_def step_run_def step_stop_def split: if_splits)
  consider "stopping s" | "\<not> stopping s" "v" | "\<not> stopping s" "\<not> v" by blast
  then show ?thesis
  proof cases
    case 1
    then show ?thesis using assms RunProbe pc by (intro probe_end) (simp_all add: pulse_step_def step_run_def)
  next
    case 2
    then show ?thesis using assms RunProbe pc by (intro probe_alive) (simp_all add: pulse_step_def step_run_def)
  next
    case 3
    then show ?thesis using assms RunProbe pc by (intro probe_dead) (simp_all add: pulse_step_def step_run_def)
  qed
next
  case RunCtx
  then show ?thesis using assms
    by (auto simp: pulse_step_def step_run_def step_stop_def split: if_splits intro: watch_ctx)
next
  case RunDown
  then have pc: "run_at s = RDown" using assms
    by (simp add: pulse_step_def step_run_def step_stop_def split: if_splits)
  show ?thesis
  proof (cases "stopping s")
    case True
    then show ?thesis using assms RunDown pc by (intro down_end) (simp_all add: pulse_step_def step_run_def)
  next
    case False
    then show ?thesis using assms RunDown pc
      by (intro down) (simp_all add: pulse_step_def step_run_def pulse_setReady_def pulse_setHealth_def split: if_splits)
  qed
next
  case (RunWake w)
  then show ?thesis using assms
    by (auto simp: pulse_step_def step_run_def step_stop_def split: if_splits intro: wake_end wake)
next
  case StopCall
  then show ?thesis using assms
    by (auto simp: pulse_step_def step_run_def step_stop_def split: if_splits intro: stop_again stop_first)
next
  case StopClear
  then show ?thesis using assms
    by (auto simp: pulse_step_def step_run_def step_stop_def pulse_setReady_def split: if_splits intro: stop_clear)
next
  case (StopReply x ts l)
  then show ?thesis using assms
    by (auto simp: pulse_step_def step_run_def step_stop_def split: if_splits intro: stop_reply)
next
  case (StopPid n)
  then show ?thesis using assms
    by (auto simp: pulse_step_def step_run_def step_stop_def split: if_splits intro: stop_pid)
next
  case StopGone
  then show ?thesis using assms
    by (auto simp: pulse_step_def step_run_def step_stop_def split: if_splits intro: stop_gone)
next
  case PulseCancel
  then show ?thesis using assms by (intro cancel) (auto simp: pulse_step_def)
qed

text \<open>The health report agrees with the ready flag until a stop begins.\<close>

definition agreeing :: "PulseConf \<Rightarrow> pulse_sys \<Rightarrow> bool" where
  "agreeing p s \<longleftrightarrow>
     (PulseHasHealth p \<and> \<not> stopping s \<longrightarrow>
        (if pulse_health s = [] then \<not> ready s
         else last (pulse_health s) = (if ready s then [] else PulseNotReady)))
     \<and> (stop_at s = NotStopped \<longleftrightarrow> \<not> stopping s)"

definition pulse_paced :: "PulseConf \<Rightarrow> pulse_sys \<Rightarrow> bool" where
  "pulse_paced p s \<longleftrightarrow>
     pulse_waits s = map (schedule audio_NextBackoff (pulse_maxBackoff p) (pulse_startBackoff p)) [0..<length (pulse_waits s)]
     \<and> (run_at s \<noteq> RReturned \<longrightarrow>
          pulse_backoff s = schedule audio_NextBackoff (pulse_maxBackoff p) (pulse_startBackoff p)
                             (if run_at s = RSleep then length (pulse_waits s) - 1 else length (pulse_waits s)))
     \<and> (run_at s = RSleep \<longrightarrow> 0 < length (pulse_waits s))
     \<and> attempt_no s \<le> length (pulse_waits s) + (if run_at s = RTop \<or> run_at s = RSleep then 0 else 1)"

lemma pulse_init_invs: "agreeing p (pulse_init p)" "pulse_paced p (pulse_init p)"
  by (simp_all add: agreeing_def pulse_paced_def pulse_init_def)

lemma agreeing_step:
  assumes "pulse_step p a s = Some t" and "agreeing p s"
  shows "agreeing p t"
  using assms(1) by (cases rule: pulse_step_cases) (use assms(2) in \<open>auto simp: agreeing_def\<close>)

lemma pulse_paced_step:
  assumes "pulse_step p a s = Some t" and "pulse_paced p s"
  shows "pulse_paced p t"
  using assms(1)
proof (cases rule: pulse_step_cases)
  case (wake w)
  have b: "0 < length (pulse_waits s)"
      "pulse_backoff s = schedule audio_NextBackoff (pulse_maxBackoff p) (pulse_startBackoff p) (length (pulse_waits s) - 1)"
    using assms(2) wake by (auto simp: pulse_paced_def)
  then have "audio_NextBackoff (pulse_backoff s) (pulse_maxBackoff p)
      = schedule audio_NextBackoff (pulse_maxBackoff p) (pulse_startBackoff p) (length (pulse_waits s))"
    using schedule_Suc [of audio_NextBackoff "pulse_maxBackoff p" "pulse_startBackoff p" "length (pulse_waits s) - 1"] by simp
  then show ?thesis using assms(2) wake by (simp add: pulse_paced_def)
qed (use assms(2) in \<open>auto simp: pulse_paced_def\<close>)

lemma pulse_reach_invs:
  assumes "pulse_reach p s"
  shows "agreeing p s" and "pulse_paced p s"
  using assms
  by (induction rule: pulse_reach.induct) (blast intro: pulse_init_invs agreeing_step pulse_paced_step)+

lemma pulse_backoff_range: "0 < sint (pulse_startBackoff p)"
  by (simp add: pulse_startBackoff_def)


lemma not_retried_step:
  assumes "pulse_step p a s = Some t" and "a \<noteq> RunProbe False"
    and "run_at s \<in> {RWatch, RReturned}" and "\<not> ready s"
  shows "run_at t \<in> {RWatch, RReturned} \<and> \<not> ready t \<and> attempt_no t = attempt_no s"
  using assms(1) by (cases rule: pulse_step_cases) (use assms(2-) in auto)

text \<open>C36: a failed bring-up is retried only after the daemon is seen dead: when a bring-up
  returned an error while the daemon process lives on (the socket did not appear in time, or
  the sink check failed and the daemon ignored the request to exit), then in every continuation
  whose liveness probes find it alive there is no further attempt and the daemon is never ready.\<close>

theorem pulse_live_failure_not_retried:
  assumes "pulse_step p (RunStart b) s = Some t" and "startDaemon p b = Some (Some e, calls)"
    and "pulse_run p as t = Some u" and "RunProbe False \<notin> set as"
  shows "attempt_no u = attempt_no s \<and> \<not> Ready u \<and> run_at u \<in> {RWatch, RReturned}"
proof -
  have t: "run_at t = RWatch" "\<not> ready t" "attempt_no t = attempt_no s"
    using assms(1) by (cases rule: pulse_step_cases; use assms(2) in auto)+
  have "run_at t \<in> {RWatch, RReturned} \<Longrightarrow> \<not> ready t \<Longrightarrow>
      attempt_no u = attempt_no t \<and> \<not> ready u \<and> run_at u \<in> {RWatch, RReturned}"
    using assms(3,4)
  proof (induction as arbitrary: t)
    case (Cons a as)
    then obtain v where v: "pulse_step p a t = Some v" "pulse_run p as v = Some u" by (auto split: option.splits)
    have "run_at v \<in> {RWatch, RReturned} \<and> \<not> ready v \<and> attempt_no v = attempt_no t"
      using not_retried_step [OF v(1)] Cons.prems by auto
    then show ?case using Cons.IH [of v] Cons.prems v(2) by auto
  qed auto
  then show ?thesis using t by (simp add: Ready_def)
qed

definition late_start :: "bringup \<Rightarrow> pulse_act list" where
  "late_start b =
    [RunTop, StopCall, StopClear, StopReply \<lparr>pactl_start = None, pactl_proc = \<lparr>wait_err = Some (ErrExit 1), stdout = []\<rparr>\<rparr> [] False,
     StopPid None, StopGone, RunStart b]"

text \<open>C35: \<open>Stop\<close> does not wait for a bring-up in progress: for every bring-up that succeeds there is a
  schedule in which \<open>Stop\<close> runs to its end, finding no daemon and signalling nothing, and the
  bring-up then launches the daemon and declares it ready; no later \<open>Stop\<close> does anything about it.\<close>

theorem pulse_stop_misses_bringup:
  assumes "startDaemon p b = Some (None, calls)"
  shows "\<exists>s. pulse_run p (late_start b) (pulse_init p) = Some s
    \<and> stop_at s = StopDone \<and> signals s = [] \<and> Ready s
    \<and> launches s = length (filter (\<lambda>k. case k of LaunchDaemon _ \<Rightarrow> True | _ \<Rightarrow> False) calls)
    \<and> step_stop StopCall s = Some s"
  using assms
  by (simp add: late_start_def pulse_step_def step_run_def step_stop_def pulse_Start_def pulse_init_def pactlRun_def
      pulse_setReady_def pulse_setHealth_def report_start_def count_launch_def Ready_def)

section \<open>Concrete runs\<close>

definition demo_pulse :: PulseConf where
  "demo_pulse = \<lparr>HomeDir = [], XDGRuntimeDir = [], ReadyTimeout = 0, PulseStartBackoff = 0, PulseMaxBackoff = 0,
     ProbeInterval = 0, StopGrace = 0, PulseHasHealth = True\<rparr>"

definition pactl_ok :: "string \<Rightarrow> pactl_answer" where
  "pactl_ok out = \<lparr>pactl_start = None, pactl_proc = \<lparr>wait_err = None, stdout = out\<rparr>\<rparr>"

definition demo_listing :: string where
  "demo_listing = sink_listing [(''0'', ''alsa'', ''m''), (''1'', SinkName, ''module-null-sink'')]"

definition demo_sock_fs :: fs where
  "demo_sock_fs = (\<lambda>_. None)(socket_path demo_pulse := Some \<lparr>is_dir = False, content = [], mtime = 0\<rparr>)"

definition demo_bringup :: bringup where
  "demo_bringup = \<lparr>setup_err = None, launch_err = None, sock_events = [SockExit None, SockTick demo_sock_fs],
     sink_answers = (\<lambda>i. if i = 0 then pactl_ok [] else pactl_ok demo_listing), default_answer = pactl_ok []\<rparr>"

definition slow_bringup :: bringup where
  "slow_bringup = demo_bringup\<lparr>sock_events := [SockExit None, SockTimeout]\<rparr>"

lemma words_solid: "word ''0'' \<and> word ''1'' \<and> word ''alsa'' \<and> word ''m'' \<and> word SinkName \<and> word ''module-null-sink''"
  by (simp add: word_def solid_def space_runes_def SinkName_def)

lemma empty_not_listed: "\<not> sinkListed []"
  by (simp add: sinkListed_def line_lists_sink_def Fields_def)

theorem sinkListed_exact_witness: "sinkListed demo_listing"
  using sinkListed_exact [of "[(''0'', ''alsa'', ''m''), (''1'', SinkName, ''module-null-sink'')]"] words_solid
  by (simp add: demo_listing_def)

lemma demo_listed: "sinkListed demo_listing"
  using sink_listing_listed [of "[(''0'', ''alsa'', ''m''), (''1'', SinkName, ''module-null-sink'')]"] words_solid
  by (simp add: demo_listing_def)

lemma demo_health: "PulseHasHealth demo_pulse"
  by (simp add: demo_pulse_def)

lemma demo_start:
  "startDaemon demo_pulse demo_bringup =
    Some (None, [LaunchDaemon daemonArgs, Pactl [''set-default-sink'', SinkName]])"
  by (simp add: startDaemon_def demo_bringup_def demo_sock_fs_def os_Stat_def waitSinkReady_def defaultPactlRetries_def
      eval_nat_numeral pactlRun_def pactl_ok_def empty_not_listed demo_listed)

lemma slow_start:
  "startDaemon demo_pulse slow_bringup = Some (Some errSocketTimeout, [LaunchDaemon daemonArgs])"
  by (simp add: startDaemon_def slow_bringup_def demo_bringup_def)

theorem startDaemon_verified_witness:
  "(\<exists>k < 5. snd (pactlRun (sink_answers demo_bringup k)) = None \<and> sinkListed (fst (pactlRun (sink_answers demo_bringup k))))
   \<and> shutdown_call \<notin> {LaunchDaemon daemonArgs}"
  using startDaemon_verified [OF demo_start] startDaemon_verified [OF slow_start]
  by (simp add: shutdown_call_def)

theorem pulse_stop_misses_bringup_witness:
  "\<exists>s. pulse_run demo_pulse (late_start demo_bringup) (pulse_init demo_pulse) = Some s
    \<and> stop_at s = StopDone \<and> Ready s \<and> launches s = 1"
  using pulse_stop_misses_bringup [OF demo_start] by auto

theorem pulse_contract_witness:
  "\<exists>es t. pulse_daemon.calls demo_pulse ([CallStop] @ [CallStart demo_bringup]) (pulse_init demo_pulse) = Some (es, t)
    \<and> Ready (pulse_Stop t)"
proof -
  obtain t where t: "pulse_daemon.calls demo_pulse ([CallStop] @ [CallStart demo_bringup]) (pulse_init demo_pulse)
      = Some ([None], t)"
    by (auto simp: pulse_Start_Some pulse_Start_def demo_start)
  then show ?thesis using pulse_contract [OF t] by auto
qed

lemma demo_pulse_run:
  "pulse_run demo_pulse [RunTop, RunStart demo_bringup, RunProbe False, RunDown, RunWake TimerFired, RunTop] (pulse_init demo_pulse) \<noteq> None"
  by (simp add: pulse_step_def step_run_def pulse_Start_def demo_start pulse_init_def audio_sleep_def
      pulse_setHealth_def pulse_setReady_def)


theorem pulse_live_failure_not_retried_witness:
  "\<exists>u. pulse_run demo_pulse [RunProbe True, StopCall, RunProbe True] ((pulse_init demo_pulse)\<lparr>run_at := RWatch,
      attempt_no := 1, launches := 1, pulse_health := [PulseNotReady]\<rparr>) = Some u \<and> \<not> Ready u \<and> attempt_no u = 1"
proof -
  let ?s = "(pulse_init demo_pulse)\<lparr>run_at := RStarting, attempt_no := 1\<rparr>"
  let ?t = "(pulse_init demo_pulse)\<lparr>run_at := RWatch, attempt_no := 1, launches := 1, pulse_health := [PulseNotReady]\<rparr>"
  have st: "pulse_step demo_pulse (RunStart slow_bringup) ?s = Some ?t"
    by (simp add: pulse_step_def step_run_def pulse_Start_def slow_start report_start_def count_launch_def
        pulse_setHealth_def pulse_setReady_def pulse_init_def demo_health)
  obtain u where u: "pulse_run demo_pulse [RunProbe True, StopCall, RunProbe True] ?t = Some u"
    by (simp add: pulse_step_def step_run_def step_stop_def pulse_init_def)
  then show ?thesis using pulse_live_failure_not_retried [OF st slow_start u] by auto
qed

end
