(* ===== verification/Monitor.thy ===== *)
theory Monitor imports Pulse begin

text \<open>
  \<open>internal/audio/monitor.go\<close>: opening and closing the live monitor recording of the virtual sink.
  The client library of PulseAudio and the pipe answer through arguments; what the code does with
  the answers is modelled together with the resources it holds (the connection, the record stream,
  the writing end of the pipe), so that the error paths can be checked for leaks.
\<close>

section \<open>The library\<close>

record resources =
  client_open :: bool
  rec_open :: bool
  writer_open :: bool

definition no_resources :: resources where
  "no_resources = \<lparr>client_open = False, rec_open = False, writer_open = False\<rparr>"

text \<open>The answers of the library: connecting, listing the sinks by their names, recording.\<close>

record pulse_lib =
  connect_err :: goerror
  list_sinks :: "string list result"
  record_err :: goerror

definition findSinkByName :: "string list \<Rightarrow> string option" where
  "findSinkByName sinks = find (\<lambda>s. s = SinkName) sinks"

section \<open>Opening\<close>

record monitorStream =
  res :: resources
  close_done :: bool

definition OpenMonitorStream :: "goerror \<Rightarrow> pulse_lib \<Rightarrow> string \<Rightarrow> (goerr + monitorStream) \<times> resources" where
  "OpenMonitorStream ctx_err l server =
    (case ctx_err of
       Some e \<Rightarrow> (Inl e, no_resources)
     | None \<Rightarrow>
    (case connect_err l of
       Some e \<Rightarrow> (Inl (ErrWrap (''connect to pulse server '' @ server) e), no_resources)
     | None \<Rightarrow>
       (let r1 = no_resources\<lparr>client_open := True\<rparr>
        in case list_sinks l of
             Inl e \<Rightarrow> (Inl (ErrWrap ''list pulse sinks'' e), r1\<lparr>client_open := False\<rparr>)
           | Inr sinks \<Rightarrow>
             (case findSinkByName sinks of
                None \<Rightarrow> (Inl (ErrText (''pulse sink '' @ SinkName @ '' not found'')), r1\<lparr>client_open := False\<rparr>)
              | Some sink \<Rightarrow>
                (let r2 = r1\<lparr>writer_open := True\<rparr>
                 in case record_err l of
                      Some e \<Rightarrow> (Inl (ErrWrap ''create pulse record stream'' e), r2\<lparr>writer_open := False, client_open := False\<rparr>)
                    | None \<Rightarrow>
                       (let r3 = r2\<lparr>rec_open := True\<rparr> in (Inr \<lparr>res = r3, close_done = False\<rparr>, r3)))))))"

section \<open>Reading and closing\<close>

text \<open>A read ends with \<open>io.EOF\<close> once the writer is closed; before, it returns what the pipe gives.\<close>

definition MonitorRead :: "monitorStream \<Rightarrow> string \<times> goerror \<Rightarrow> string \<times> goerror" where
  "MonitorRead m answer = (if writer_open (res m) then answer else ([], Some (ErrSentinel ''EOF'')))"

definition MonitorClose :: "goerror \<Rightarrow> monitorStream \<Rightarrow> goerror \<times> monitorStream" where
  "MonitorClose close_err m =
    (if close_done m then (None, m)
     else (close_err, m\<lparr>res := (res m)\<lparr>rec_open := False, writer_open := False, client_open := False\<rparr>, close_done := True\<rparr>))"

section \<open>Properties\<close>

text \<open>Opening the monitor stream succeeds exactly when the context lives, the server answers, the
  virtual sink is listed and the recording can be set up; on every failure nothing stays open; and
  closing releases everything, once and for all, so that a blocked read ends.\<close>

theorem monitor_no_leak:
  "(case OpenMonitorStream ctx_err l server of
      (Inl e, r) \<Rightarrow> r = no_resources
    | (Inr m, r) \<Rightarrow>
       res m = r \<and> client_open r \<and> rec_open r \<and> writer_open r \<and> MonitorRead m answer = answer
       \<and> (let m' = snd (MonitorClose e1 m)
          in res m' = no_resources \<and> MonitorRead m' answer = ([], Some (ErrSentinel ''EOF''))
             \<and> MonitorClose e2 m' = (None, m')))
    \<and> (isl (fst (OpenMonitorStream ctx_err l server)) =
        (\<not> (ctx_err = None \<and> connect_err l = None \<and> record_err l = None
            \<and> (case list_sinks l of Inl e \<Rightarrow> False | Inr sinks \<Rightarrow> SinkName \<in> set sinks))))"
proof -
  have f: "(findSinkByName sinks = None) = (SinkName \<notin> set sinks)" for sinks
    by (auto simp: findSinkByName_def find_None_iff)
  then have g: "findSinkByName sinks = Some x \<Longrightarrow> SinkName \<in> set sinks" for sinks x
    by (metis option.distinct(1))
  show ?thesis
    using f by (auto dest: g simp: OpenMonitorStream_def Let_def no_resources_def MonitorRead_def MonitorClose_def
        split: option.splits sum.splits)
qed

end
