(* ===== verification/RecorderLoop.thy ===== *)
theory RecorderLoop imports Recorder Backoff begin

text \<open>
  \<open>runRecorder\<close> and \<open>recorderSlot\<close> of \<open>cmd/shim/main.go\<close>: the loop that waits for the audio daemon,
  opens the monitor stream, runs one fresh recorder per attempt and publishes it in the slot the
  streams read from; each attempt has a watchdog goroutine that stops the recorder and closes its
  stream when the daemon is no longer ready. The loop is a program counter; the attempts are kept,
  old ones included, because an old watchdog may still act after the loop has moved on.
\<close>

section \<open>State\<close>

text \<open>One attempt: its recorder, whether its stream is closed, whether \<open>lostDone\<close> is closed and
  whether its watchdog runs.\<close>

record attempt_rec =
  recd :: PulseRecorder
  stream_closed :: bool
  lost_done :: bool
  watchdog :: bool

datatype rl_pc = RLWait | RLTop | RLOpen | RLWatch nat | RLSleep | RLReturned

record rl_sys =
  rlpc :: rl_pc
  rl_attempts :: "attempt_rec list"
  rslot :: "nat option"
  daemon_ready :: bool
  rl_cancelled :: bool
  rl_backoff :: duration
  rl_waits :: "duration list"

definition recorderBackoffInitial :: duration where "recorderBackoffInitial = 2 * second"
definition recorderBackoffMax :: duration where "recorderBackoffMax = 30 * second"

definition rl_init :: rl_sys where
  "rl_init = \<lparr>rlpc = RLWait, rl_attempts = [], rslot = None, daemon_ready = False, rl_cancelled = False,
     rl_backoff = recorderBackoffInitial, rl_waits = []\<rparr>"

section \<open>The slot\<close>

definition slot_set :: "nat option \<Rightarrow> rl_sys \<Rightarrow> rl_sys" where
  "slot_set k s = s\<lparr>rslot := k\<rparr>"

definition slot_get :: "rl_sys \<Rightarrow> PulseRecorder option" where
  "slot_get s = map_option (\<lambda>k. recd (rl_attempts s ! k)) (rslot s)"

text \<open>The counters of the published recorder, for the telemetry.\<close>

definition slot_metrics :: "rl_sys \<Rightarrow> (u64 \<times> u64) option" where
  "slot_metrics s = map_option (\<lambda>p. (RecChunksSent p, RecDropped p)) (slot_get s)"

section \<open>The steps\<close>

definition set_attempt :: "nat \<Rightarrow> attempt_rec \<Rightarrow> rl_sys \<Rightarrow> rl_sys" where
  "set_attempt k a s = s\<lparr>rl_attempts := (rl_attempts s)[k := a]\<rparr>"

text \<open>\<open>rec.Stop()\<close> and \<open>stream.Close()\<close>.\<close>

definition shut :: "attempt_rec \<Rightarrow> attempt_rec" where
  "shut a = a\<lparr>recd := RecStop (recd a), stream_closed := True\<rparr>"

datatype rl_act =
    RLReady | RLCtx | RLBegin | RLOpened bool | RLPumpDone | RLWake wake
  | WdTick nat | WdEnd nat
  | PumpEnd nat | DaemonReady bool | RLCancel

text \<open>A fresh recorder per attempt, started before it is published.\<close>

definition open_attempt :: "int \<Rightarrow> rl_sys \<Rightarrow> rl_sys" where
  "open_attempt n s =
    (let k = length (rl_attempts s)
     in slot_set (Some k) (s\<lparr>rl_attempts := rl_attempts s @
          [\<lparr>recd = RecStart (new_recorder 0 n), stream_closed = False, lost_done = False, watchdog = True\<rparr>],
          rlpc := RLWatch k\<rparr>))"

definition runRecorder_step :: "int \<Rightarrow> rl_act \<Rightarrow> rl_sys \<Rightarrow> rl_sys option" where
  "runRecorder_step n a s =
    (case rlpc s of
       RLWait \<Rightarrow>
         (case a of
            RLReady \<Rightarrow> (if daemon_ready s then Some (s\<lparr>rlpc := RLTop\<rparr>) else None)
          | RLCtx \<Rightarrow> (if rl_cancelled s then Some (s\<lparr>rlpc := RLReturned\<rparr>) else None)
          | _ \<Rightarrow> None)
     | RLTop \<Rightarrow>
         (case a of
            RLBegin \<Rightarrow> Some (s\<lparr>rlpc := (if rl_cancelled s then RLReturned else RLOpen)\<rparr>)
          | _ \<Rightarrow> None)
     | RLOpen \<Rightarrow>
         (case a of
            RLOpened ok \<Rightarrow> Some (if ok then open_attempt n s else s)
          | RLCtx \<Rightarrow> (if rl_cancelled s then Some (s\<lparr>rlpc := RLReturned\<rparr>) else None)
          | _ \<Rightarrow> None)
     | RLWatch k \<Rightarrow>
         (case a of
            RLCtx \<Rightarrow>
              (if rl_cancelled s
               then Some (slot_set None ((set_attempt k (shut (rl_attempts s ! k)) s)\<lparr>rlpc := RLReturned\<rparr>)) else None)
          | RLPumpDone \<Rightarrow>
              (if RecDone (recd (rl_attempts s ! k)) = Some True
               then Some (slot_set None ((set_attempt k (shut ((rl_attempts s ! k)\<lparr>lost_done := True\<rparr>)) s)
                      \<lparr>rlpc := RLSleep, rl_waits := rl_waits s @ [rl_backoff s]\<rparr>)) else None)
          | _ \<Rightarrow> None)
     | RLSleep \<Rightarrow>
         (case a of
            RLWake w \<Rightarrow>
              (if w = CtxDone \<and> \<not> rl_cancelled s then None
               else if \<not> recorderSleep w then Some (s\<lparr>rlpc := RLReturned\<rparr>)
               else Some (s\<lparr>rlpc := RLTop, rl_backoff := audio_NextBackoff (rl_backoff s) recorderBackoffMax\<rparr>))
          | _ \<Rightarrow> None)
     | RLReturned \<Rightarrow> None)"

text \<open>The watchdog of attempt \<open>k\<close>: on a tick it checks the daemon; it ends when the context or
  \<open>lostDone\<close> says so.\<close>

definition watchdog_step :: "rl_act \<Rightarrow> rl_sys \<Rightarrow> rl_sys option" where
  "watchdog_step a s =
    (case a of
       WdTick k \<Rightarrow>
         (if k < length (rl_attempts s) \<and> watchdog (rl_attempts s ! k)
          then Some (if daemon_ready s then s
                     else set_attempt k ((shut (rl_attempts s ! k))\<lparr>watchdog := False\<rparr>) s)
          else None)
     | WdEnd k \<Rightarrow>
         (if k < length (rl_attempts s) \<and> watchdog (rl_attempts s ! k)
             \<and> (rl_cancelled s \<or> lost_done (rl_attempts s ! k))
          then Some (set_attempt k ((rl_attempts s ! k)\<lparr>watchdog := False\<rparr>) s) else None)
     | _ \<Rightarrow> None)"

text \<open>The environment: the pump of an attempt ends, the daemon comes and goes, the context is
  cancelled.\<close>

definition rl_env :: "rl_act \<Rightarrow> rl_sys \<Rightarrow> rl_sys option" where
  "rl_env a s =
    (case a of
       PumpEnd k \<Rightarrow>
         (if k < length (rl_attempts s)
          then Some (set_attempt k ((rl_attempts s ! k)\<lparr>recd := (recd (rl_attempts s ! k))\<lparr>doneCh := Some True\<rparr>\<rparr>) s)
          else None)
     | DaemonReady b \<Rightarrow> Some (s\<lparr>daemon_ready := b\<rparr>)
     | RLCancel \<Rightarrow> Some (s\<lparr>rl_cancelled := True\<rparr>)
     | _ \<Rightarrow> None)"

definition rl_step :: "int \<Rightarrow> rl_act \<Rightarrow> rl_sys \<Rightarrow> rl_sys option" where
  "rl_step n a s =
    (case runRecorder_step n a s of
       Some t \<Rightarrow> Some t
     | None \<Rightarrow> (case watchdog_step a s of Some t \<Rightarrow> Some t | None \<Rightarrow> rl_env a s))"

fun rl_run :: "int \<Rightarrow> rl_act list \<Rightarrow> rl_sys \<Rightarrow> rl_sys option" where
  "rl_run n [] s = Some s"
| "rl_run n (a # as) s = (case rl_step n a s of None \<Rightarrow> None | Some t \<Rightarrow> rl_run n as t)"

inductive rl_reach :: "int \<Rightarrow> rl_sys \<Rightarrow> bool" for n where
  rl_zero: "rl_reach n rl_init"
| rl_next: "rl_reach n s \<Longrightarrow> rl_step n a s = Some t \<Longrightarrow> rl_reach n t"

lemma rl_run_reach: "rl_run n as s = Some t \<Longrightarrow> rl_reach n s \<Longrightarrow> rl_reach n t"
  by (induction as arbitrary: s) (auto split: option.splits intro: rl_reach.intros)

section \<open>The transitions by shape\<close>

lemma rl_step_cases:
  assumes "rl_step n a s = Some t"
  obtains (pc) p where "rlpc s \<notin> {RLSleep, RLReturned}" "\<And>k. rlpc s \<noteq> RLWatch k" "p \<in> {RLTop, RLOpen, RLReturned}"
      "t = s\<lparr>rlpc := p\<rparr>" "p = RLTop \<Longrightarrow> daemon_ready s"
  | (failed_open) "rlpc s = RLOpen" "t = s"
  | (opened) "rlpc s = RLOpen" "t = open_attempt n s"
  | (cancelled) k where "rlpc s = RLWatch k"
      "t = slot_set None ((set_attempt k (shut (rl_attempts s ! k)) s)\<lparr>rlpc := RLReturned\<rparr>)"
  | (lost) k where "rlpc s = RLWatch k" "RecDone (recd (rl_attempts s ! k)) = Some True"
      "t = slot_set None ((set_attempt k (shut ((rl_attempts s ! k)\<lparr>lost_done := True\<rparr>)) s)
                      \<lparr>rlpc := RLSleep, rl_waits := rl_waits s @ [rl_backoff s]\<rparr>)"
  | (woken) "rlpc s = RLSleep" "t = s\<lparr>rlpc := RLTop, rl_backoff := audio_NextBackoff (rl_backoff s) recorderBackoffMax\<rparr>"
  | (interrupted) "rlpc s = RLSleep" "t = s\<lparr>rlpc := RLReturned\<rparr>"
  | (tick) k where "k < length (rl_attempts s)" "t = s"
  | (dead) k where "k < length (rl_attempts s)" "\<not> daemon_ready s"
      "t = set_attempt k ((shut (rl_attempts s ! k))\<lparr>watchdog := False\<rparr>) s"
  | (wd_end) k where "k < length (rl_attempts s)" "rl_cancelled s \<or> lost_done (rl_attempts s ! k)" "t = set_attempt k ((rl_attempts s ! k)\<lparr>watchdog := False\<rparr>) s"
  | (pump) k where "k < length (rl_attempts s)"
      "t = set_attempt k ((rl_attempts s ! k)\<lparr>recd := (recd (rl_attempts s ! k))\<lparr>doneCh := Some True\<rparr>\<rparr>) s"
  | (ready) b where "t = s\<lparr>daemon_ready := b\<rparr>"
  | (cancel) "t = s\<lparr>rl_cancelled := True\<rparr>"
proof (cases "runRecorder_step n a s")
  case None
  then have "watchdog_step a s = Some t \<or> rl_env a s = Some t"
    using assms by (auto simp: rl_step_def split: option.splits)
  then show ?thesis
    by (cases a) (auto simp: watchdog_step_def rl_env_def split: if_splits intro: tick dead wd_end pump ready cancel)
next
  case (Some u)
  then have r: "runRecorder_step n a s = Some t" using assms by (simp add: rl_step_def)
  show ?thesis
    using r
    by (cases "rlpc s"; cases a)
      (auto simp: runRecorder_step_def split: if_splits intro: pc failed_open opened cancelled lost woken interrupted)
qed

section \<open>The invariant\<close>

definition halted :: "attempt_rec \<Rightarrow> bool" where
  "halted a \<longleftrightarrow> stream_closed a \<and> stopCh (recd a) = Some True"

definition attempt_ok :: "int \<Rightarrow> attempt_rec \<Rightarrow> bool" where
  "attempt_ok n a \<longleftrightarrow> startOnce (recd a) \<and> BufferLen (recd a) = n
     \<and> (stopped (recd a) \<longrightarrow> stopCh (recd a) = Some True)"

lemma shut_ok: "attempt_ok n a \<Longrightarrow> attempt_ok n (shut a) \<and> halted (shut a)"
  by (auto simp: attempt_ok_def halted_def shut_def RecStop_def Let_def)

lemma attempt_fields [simp]:
  "attempt_ok n (a\<lparr>watchdog := w\<rparr>) = attempt_ok n a" "halted (a\<lparr>watchdog := w\<rparr>) = halted a"
  "attempt_ok n (a\<lparr>lost_done := w\<rparr>) = attempt_ok n a" "halted (a\<lparr>lost_done := w\<rparr>) = halted a"
  "attempt_ok n (a\<lparr>recd := (recd a)\<lparr>doneCh := d\<rparr>\<rparr>) = attempt_ok n a"
  "halted (a\<lparr>recd := (recd a)\<lparr>doneCh := d\<rparr>\<rparr>) = halted a"
  by (simp_all add: attempt_ok_def halted_def)

text \<open>An attempt is well-formed; the watched one is watched over, halted already, or ended by
  cancellation; every other one is halted.\<close>

definition watched_ok :: "int \<Rightarrow> rl_pc \<Rightarrow> bool \<Rightarrow> nat \<Rightarrow> attempt_rec \<Rightarrow> bool" where
  "watched_ok n p c k a \<longleftrightarrow>
     attempt_ok n a \<and> (if p = RLWatch k then \<not> lost_done a \<and> (watchdog a \<or> halted a \<or> c) else halted a)"

definition attempts_ok :: "int \<Rightarrow> rl_sys \<Rightarrow> bool" where
  "attempts_ok n s \<longleftrightarrow>
     (\<forall>k < length (rl_attempts s). watched_ok n (rlpc s) (rl_cancelled s) k (rl_attempts s ! k))
   \<and> (\<forall>k. rlpc s = RLWatch k \<longrightarrow> Suc k = length (rl_attempts s))
   \<and> rslot s = (case rlpc s of RLWatch k \<Rightarrow> Some k | _ \<Rightarrow> None)"

definition rl_paced :: "rl_sys \<Rightarrow> bool" where
  "rl_paced s \<longleftrightarrow>
     (let sched = schedule audio_NextBackoff recorderBackoffMax recorderBackoffInitial
      in rl_waits s = map sched [0..<length (rl_waits s)]
       \<and> (rlpc s = RLSleep \<longrightarrow> rl_waits s \<noteq> [] \<and> rl_backoff s = sched (length (rl_waits s) - 1))
       \<and> (rlpc s \<notin> {RLSleep, RLReturned} \<longrightarrow> rl_backoff s = sched (length (rl_waits s)))
       \<and> length (rl_attempts s) \<le> Suc (length (rl_waits s))
       \<and> (rlpc s \<in> {RLWait, RLTop, RLOpen, RLSleep} \<longrightarrow> length (rl_attempts s) \<le> length (rl_waits s)))"

lemma attempt_at: "attempts_ok n s \<Longrightarrow> k < length (rl_attempts s) \<Longrightarrow>
    watched_ok n (rlpc s) (rl_cancelled s) k (rl_attempts s ! k)"
  by (simp add: attempts_ok_def)

lemma watched_at: "attempts_ok n s \<Longrightarrow> rlpc s = RLWatch k \<Longrightarrow> Suc k = length (rl_attempts s) \<and> rslot s = Some k"
  by (simp add: attempts_ok_def)

lemma attempts_ok_set:
  assumes "attempts_ok n s" and "watched_ok n (rlpc s) (rl_cancelled s) k a"
  shows "attempts_ok n (set_attempt k a s)"
  using assms by (simp add: attempts_ok_def set_attempt_def nth_update)

text \<open>The watched attempt is halted and given up.\<close>

lemma attempts_ok_leave:
  assumes "attempts_ok n s" and "rlpc s = RLWatch k" and "attempt_ok n a" and "halted a" and "\<And>j. p \<noteq> RLWatch j"
  shows "attempts_ok n (slot_set None ((set_attempt k a s)\<lparr>rlpc := p, rl_waits := w\<rparr>))"
proof -
  have "watched_ok n p (rl_cancelled s) j ((rl_attempts s)[k := a] ! j)" if j: "j < length (rl_attempts s)" for j
    using attempt_at [OF assms(1) j] assms(2-5) j by (simp add: watched_ok_def nth_update)
  moreover have "(case p of RLWatch k \<Rightarrow> Some k | _ \<Rightarrow> None) = None" using assms(5) by (cases p) auto
  ultimately show ?thesis using assms(5) by (simp add: attempts_ok_def slot_set_def set_attempt_def)
qed

lemma attempts_ok_open:
  assumes "attempts_ok n s" and "rlpc s = RLOpen"
  shows "attempts_ok n (open_attempt n s)"
proof -
  let ?a = "\<lparr>recd = RecStart (new_recorder 0 n), stream_closed = False, lost_done = False, watchdog = True\<rparr>"
  have "attempt_ok n ?a" by (simp add: attempt_ok_def recorder_op_defs new_recorder_def)
  moreover have "watched_ok n (RLWatch (length (rl_attempts s))) c j (rl_attempts s ! j)" if "j < length (rl_attempts s)" for j c
    using attempt_at [OF assms(1) that] assms(2) that by (simp add: watched_ok_def)
  ultimately show ?thesis
    by (auto simp: attempts_ok_def open_attempt_def slot_set_def Let_def nth_append less_Suc_eq watched_ok_def)
qed

lemma attempts_ok_pc:
  assumes "attempts_ok n s" and "\<And>k. rlpc s \<noteq> RLWatch k" and "\<And>k. p \<noteq> RLWatch k"
  shows "attempts_ok n (s\<lparr>rlpc := p, rl_backoff := b\<rparr>)"
proof -
  have "rslot s = None" using assms(1,2) by (cases "rlpc s") (auto simp: attempts_ok_def)
  moreover have "(case p of RLWatch k \<Rightarrow> Some k | _ \<Rightarrow> None) = None" using assms(3) by (cases p) auto
  ultimately show ?thesis using assms by (auto simp: attempts_ok_def watched_ok_def)
qed

lemma attempts_step:
  assumes "attempts_ok n s" and "rl_step n a s = Some t"
  shows "attempts_ok n t"
  using assms(2)
proof (cases rule: rl_step_cases)
  case (pc p)
  then show ?thesis using attempts_ok_pc [OF assms(1), of p "rl_backoff s"] by auto
next
  case opened
  then show ?thesis using attempts_ok_open [OF assms(1)] by simp
next
  case (cancelled k)
  have "attempt_ok n (rl_attempts s ! k)"
    using attempt_at [OF assms(1)] watched_at [OF assms(1) cancelled(1)] by (simp add: watched_ok_def)
  from attempts_ok_leave [OF assms(1) cancelled(1), of _ RLReturned "rl_waits s"] shut_ok [OF this]
  show ?thesis by (simp add: cancelled(2) set_attempt_def)
next
  case (lost k)
  have "attempt_ok n ((rl_attempts s ! k)\<lparr>lost_done := True\<rparr>)"
    using attempt_at [OF assms(1)] watched_at [OF assms(1) lost(1)] by (simp add: watched_ok_def)
  from attempts_ok_leave [OF assms(1) lost(1), of _ RLSleep] shut_ok [OF this]
  show ?thesis by (simp add: lost(3))
next
  case (dead k)
  have "watched_ok n (rlpc s) (rl_cancelled s) k ((shut (rl_attempts s ! k))\<lparr>watchdog := False\<rparr>)"
    using attempt_at [OF assms(1) dead(1)] shut_ok by (auto simp: watched_ok_def shut_def split: if_splits)
  then show ?thesis using attempts_ok_set [OF assms(1)] by (simp add: dead(3))
next
  case (wd_end k)
  have "watched_ok n (rlpc s) (rl_cancelled s) k ((rl_attempts s ! k)\<lparr>watchdog := False\<rparr>)"
    using attempt_at [OF assms(1) wd_end(1)] wd_end(2) by (auto simp: watched_ok_def split: if_splits)
  then show ?thesis using attempts_ok_set [OF assms(1)] by (simp add: wd_end(3))
next
  case (pump k)
  have "watched_ok n (rlpc s) (rl_cancelled s) k ((rl_attempts s ! k)\<lparr>recd := (recd (rl_attempts s ! k))\<lparr>doneCh := Some True\<rparr>\<rparr>)"
    using attempt_at [OF assms(1) pump(1)] by (simp add: watched_ok_def)
  then show ?thesis using attempts_ok_set [OF assms(1)] by (simp add: pump(2))
next
  case woken
  then show ?thesis using attempts_ok_pc [OF assms(1), of RLTop] by simp
next
  case interrupted
  then show ?thesis using attempts_ok_pc [OF assms(1), of RLReturned "rl_backoff s"] by simp
qed (use assms(1) in \<open>auto simp: attempts_ok_def watched_ok_def split: if_splits\<close>)

lemma attempts_reach: "rl_reach n s \<Longrightarrow> attempts_ok n s"
proof (induction rule: rl_reach.induct)
  case rl_zero
  show ?case by (simp add: attempts_ok_def rl_init_def)
qed (rule attempts_step)

lemma rl_paced_step:
  assumes "rl_paced s" and "attempts_ok n s" and "rl_step n a s = Some t"
  shows "rl_paced t"
  using assms(3)
proof (cases rule: rl_step_cases)
  case (lost k)
  then have "length (rl_attempts s) \<le> Suc (length (rl_waits s))"
      "rl_backoff s = schedule audio_NextBackoff recorderBackoffMax recorderBackoffInitial (length (rl_waits s))"
    using assms(1) by (simp_all add: rl_paced_def Let_def)
  then show ?thesis
    using assms(1) lost by (auto simp: rl_paced_def Let_def slot_set_def set_attempt_def)
next
  case woken
  then have w: "rl_waits s \<noteq> []"
      "rl_backoff s = schedule audio_NextBackoff recorderBackoffMax recorderBackoffInitial (length (rl_waits s) - 1)"
    using assms(1) by (simp_all add: rl_paced_def Let_def)
  then have "audio_NextBackoff (rl_backoff s) recorderBackoffMax
      = schedule audio_NextBackoff recorderBackoffMax recorderBackoffInitial (length (rl_waits s))"
    by (cases "length (rl_waits s)") (simp_all add: schedule_Suc)
  then show ?thesis using assms(1) woken by (auto simp: rl_paced_def Let_def)
next
  case (pc p)
  then show ?thesis using assms(1) by (cases "rlpc s") (auto simp: rl_paced_def Let_def)
next
  case opened
  then show ?thesis using assms(1) by (auto simp: rl_paced_def Let_def open_attempt_def slot_set_def)
qed (use assms(1) in \<open>auto simp: rl_paced_def Let_def slot_set_def set_attempt_def\<close>)

lemma rl_paced_reach: "rl_reach n s \<Longrightarrow> rl_paced s"
proof (induction rule: rl_reach.induct)
  case rl_zero
  show ?case by (simp add: rl_paced_def rl_init_def Let_def)
next
  case (rl_next s a t)
  then show ?case using rl_paced_step attempts_reach by blast
qed

section \<open>Properties\<close>

text \<open>C11: The slot never offers a dead recorder for long: what is published is always the newest
  recorder, and only while the loop watches it; every other recorder ever started has been stopped
  and its stream closed; and the published one is watched over by a running watchdog, unless it is
  halted already or the shim is shutting down. Each recorder has the configured buffer and is
  started once.\<close>

theorem recorder_loop_slot:
  assumes "rl_reach n s" and "k < length (rl_attempts s)" and "a = rl_attempts s ! k"
  shows "rslot s = (case rlpc s of RLWatch j \<Rightarrow> Some j | _ \<Rightarrow> None)
    \<and> (if rslot s = Some k then Suc k = length (rl_attempts s) \<and> (watchdog a \<or> halted a \<or> rl_cancelled s)
       else halted a)
    \<and> BufferLen (recd a) = n \<and> startOnce (recd a)"
proof -
  note ok = attempts_reach [OF assms(1)]
  have "rslot s = (case rlpc s of RLWatch j \<Rightarrow> Some j | _ \<Rightarrow> None)" using ok by (simp add: attempts_ok_def)
  moreover from this have "rslot s = Some k \<longleftrightarrow> rlpc s = RLWatch k" by (cases "rlpc s") auto
  ultimately show ?thesis
    using attempt_at [OF ok assms(2)] watched_at [OF ok] assms(3) by (auto simp: watched_ok_def attempt_ok_def split: if_splits)
qed

text \<open>A daemon that goes away, a forced restart, a new recorder.\<close>

definition restart_acts :: "rl_act list" where
  "restart_acts =
    [DaemonReady True, RLReady, RLBegin, RLOpened False, RLOpened True, DaemonReady False, WdTick 0, PumpEnd 0,
     RLPumpDone, RLWake TimerFired, RLBegin, RLOpened True]"

lemma restart_run:
  "\<exists>t. rl_run 8 restart_acts rl_init = Some t \<and> length (rl_attempts t) = 2 \<and> rslot t = Some 1
    \<and> rl_waits t = [2000000000]"
proof -
  have "case rl_run 8 restart_acts rl_init of None \<Rightarrow> False
    | Some t \<Rightarrow> length (rl_attempts t) = 2 \<and> rslot t = Some 1 \<and> rl_waits t = [2000000000]"
    by code_simp
  then show ?thesis by (auto split: option.splits)
qed

lemma recorder_loop_slot_witness:
  "\<exists>t. rl_reach 8 t \<and> rslot t = Some 1 \<and> halted (rl_attempts t ! 0) \<and> BufferLen (recd (rl_attempts t ! 0)) = 8"
proof -
  obtain t where t: "rl_run 8 restart_acts rl_init = Some t" "length (rl_attempts t) = 2" "rslot t = Some 1"
    using restart_run by blast
  have "rl_reach 8 t" by (rule rl_run_reach [OF t(1) rl_zero])
  with recorder_loop_slot [OF this, of 0] t show ?thesis by auto
qed

text \<open>Reconnects are paced: the \<open>i\<close>-th wait of the loop is two seconds doubled \<open>i\<close> times, capped
  at thirty, and there is at most one recorder more than there were waits, however often the daemon
  or the stream fails.\<close>

theorem recorder_loop_paced:
  assumes "rl_reach n s"
  shows "map sint (rl_waits s) = map (\<lambda>i. min (2 ^ i * 2000000000) 30000000000) [0..<length (rl_waits s)]
    \<and> length (rl_attempts s) \<le> Suc (length (rl_waits s))"
proof -
  have p: "rl_paced s" by (rule rl_paced_reach [OF assms])
  then have w: "rl_waits s = map (schedule audio_NextBackoff recorderBackoffMax recorderBackoffInitial) [0..<length (rl_waits s)]"
    by (simp only: rl_paced_def Let_def)
  have c: "sint (schedule audio_NextBackoff recorderBackoffMax recorderBackoffInitial i) = min (2 ^ i * 2000000000) 30000000000" for i
    using audio_bo.closed_form [of recorderBackoffInitial recorderBackoffMax i]
    by (simp add: recorderBackoffInitial_def recorderBackoffMax_def)
  have "map sint (rl_waits s) = map (\<lambda>i. min (2 ^ i * 2000000000) 30000000000) [0..<length (rl_waits s)]"
    by (subst w) (simp add: c)
  then show ?thesis using p by (simp add: rl_paced_def Let_def)
qed

lemma recorder_loop_paced_witness:
  "\<exists>t. rl_reach 8 t \<and> length (rl_attempts t) = 2 \<and> map sint (rl_waits t) = [2000000000]"
proof -
  obtain t where t: "rl_run 8 restart_acts rl_init = Some t" "length (rl_attempts t) = 2" "rl_waits t = [2000000000]"
    using restart_run by blast
  have "rl_reach 8 t" by (rule rl_run_reach [OF t(1) rl_zero])
  with recorder_loop_paced [OF this] t show ?thesis by auto
qed

end
