(* ===== verification/Shim.thy ===== *)
theory Shim imports ConfigModel Telemetry Supervisor Pairing Monitor Listener RecorderLoop StreamFlow begin

text \<open>
  \<open>cmd/shim/main.go\<close>: how the components are wired together. Each is built from the configuration;
  the Soloist branch resolves the binary, looks for a session and then supervises or pairs first;
  the health reports of all components meet in the server's one reason; the telemetry loop samples
  the recorder slot and the server's counters. \<open>srcFunc\<close> is in \<open>StreamModel\<close>, \<open>runRecorder\<close> in
  \<open>RecorderLoop\<close>.
\<close>

section \<open>Construction\<close>

definition manager_of :: "Config \<Rightarrow> BinaryManager" where
  "manager_of cfg = \<lparr>ExplicitPath = SoloistBin cfg, BinDataDir = SoloistDataDir cfg\<rparr>"

definition stream_conf_of :: "Config \<Rightarrow> (nat \<Rightarrow> u16) \<Rightarrow> stream_conf" where
  "stream_conf_of cfg f = \<lparr>static_rate = (if StaticStream cfg then Some (StaticSampleRate cfg) else None), tone = f\<rparr>"

definition shim_pulse :: PulseConf where
  "shim_pulse = \<lparr>HomeDir = [], XDGRuntimeDir = [], ReadyTimeout = 0, PulseStartBackoff = 0, PulseMaxBackoff = 0,
     ProbeInterval = 0, StopGrace = 0, PulseHasHealth = True\<rparr>"

definition listener_of :: "Config \<Rightarrow> ListenerConf" where
  "listener_of cfg = \<lparr>ListenerURL = TeddycloudURL cfg, ListenerBackoff = 0, ListenerMaxBackoff = 0, IDLETimeout = 0\<rparr>"

definition pairer_of :: "Config \<Rightarrow> string \<Rightarrow> Pairer" where
  "pairer_of cfg binPath =
    \<lparr>PairBinaryPath = binPath, PairDeviceName = SoloistDeviceName cfg, PairAPIKey = SoloistAPIKey cfg,
     PairDataDir = SoloistDataDir cfg, PairCacheDir = SoloistCacheDir cfg, PairChecker = Some (SoloistDataDir cfg),
     PairBinary = Some (manager_of cfg), PollInterval = 0\<rparr>"

definition supervisor_of :: "Config \<Rightarrow> string \<Rightarrow> SupConfig" where
  "supervisor_of cfg binPath =
    \<lparr>BinaryPath = binPath, DeviceName = SoloistDeviceName cfg, APIKey = SoloistAPIKey cfg,
     DataDir = SoloistDataDir cfg, CacheDir = SoloistCacheDir cfg, StartBackoff = 0, MaxBackoff = 0,
     WSPortTimeout = 0, HasCommands = True, HasHealth = True, SupBinary = Some (manager_of cfg),
     SupVolume = SoloistVolume cfg\<rparr>"

datatype log_level = LevelDebug | LevelInfo | LevelWarn | LevelError

definition setupLogger :: "string \<Rightarrow> log_level" where
  "setupLogger level =
    (if level = ''debug'' then LevelDebug else if level = ''warn'' then LevelWarn
     else if level = ''error'' then LevelError else LevelInfo)"

section \<open>The Soloist branch\<close>

datatype gate = GateMissing goerr | GateSupervise string | GatePair string

text \<open>The decision, the health reports made with it, and the disk afterwards.\<close>

definition soloist_gate :: "outside \<Rightarrow> Config \<Rightarrow> fs \<Rightarrow> gate \<times> string list \<times> fs" where
  "soloist_gate w cfg f =
    (case Resolve w (manager_of cfg) f of
       (p, Some e, f') \<Rightarrow> (GateMissing e, [''soloist_missing''], f')
     | (p, None, f') \<Rightarrow>
        (if Check (SoloistDataDir cfg) f' = StateReady then (GateSupervise p, [], f')
         else (GatePair p, [''soloist_unpaired''], f')))"

definition pairingBackoffInitial :: duration where "pairingBackoffInitial = 5 * second"
definition pairingBackoffMax :: duration where "pairingBackoffMax = 60 * second"

text \<open>One attempt of the pairing: how its process starts and what its \<open>select\<close> sees, and how the
  wait after it ends. Attempts are only counted when they return.\<close>

record pair_try =
  try_start :: goerror
  try_disk :: fs
  try_events :: "pair_event list"
  try_wake :: wake

fun pair_outcomes :: "Pairer \<Rightarrow> pair_try list \<Rightarrow> (PairOutcome \<times> wake) list" where
  "pair_outcomes p [] = []"
| "pair_outcomes p (x # xs) =
    (case Pair p (try_start x) (try_disk x) (try_events x) of
       None \<Rightarrow> []
     | Some a \<Rightarrow> (outcome a, try_wake x) # pair_outcomes p xs)"

text \<open>\<open>pairThenSupervisor\<close>: whether the supervisor runs afterwards, and the reports.\<close>

definition pairThenSupervisor :: "Config \<Rightarrow> string \<Rightarrow> pair_try list \<Rightarrow> bool \<times> string list" where
  "pairThenSupervisor cfg binPath xs =
    (case fst (Drive (pair_outcomes (pairer_of cfg binPath) xs) pairingBackoffInitial pairingBackoffMax) of
       Some PairDone \<Rightarrow> (True, [])
     | Some PairExpired \<Rightarrow> (False, [''soloist_expired''])
     | _ \<Rightarrow> (False, []))"

text \<open>The configuration the supervisor is run with, if it is run, and the reports up to then.\<close>

definition soloist_branch :: "outside \<Rightarrow> Config \<Rightarrow> fs \<Rightarrow> pair_try list \<Rightarrow> SupConfig option \<times> string list" where
  "soloist_branch w cfg f xs =
    (case soloist_gate w cfg f of
       (GateMissing e, hs, f') \<Rightarrow> (None, hs)
     | (GateSupervise p, hs, f') \<Rightarrow> (Some (supervisor_of cfg p), hs)
     | (GatePair p, hs, f') \<Rightarrow>
        (case pairThenSupervisor cfg p xs of
           (go, hs') \<Rightarrow> (if go then Some (supervisor_of cfg p) else None, hs @ hs')))"

section \<open>Addresses of the audio server\<close>

definition pulseServerSocket :: "environ \<Rightarrow> string" where
  "pulseServerSocket env =
    (let runtime = (if env ''XDG_RUNTIME_DIR'' = [] then ''/tmp/runtime'' else env ''XDG_RUNTIME_DIR'')
     in ''unix:'' @ path_Join [runtime, ''pulse'', ''native''])"

section \<open>Telemetry\<close>

definition take_snapshot :: "rl_sys \<Rightarrow> server \<Rightarrow> Snapshot" where
  "take_snapshot r v =
    (let snap = \<lparr>Chunks = 0, Dropped = 0, Delivered = DeliveredBytes v, Streams = word_of_int (ActiveStreams v)\<rparr>
     in case slot_metrics r of
          None \<Rightarrow> snap
        | Some (sent, drp) \<Rightarrow> snap\<lparr>Chunks := sent, Dropped := drp\<rparr>)"

text \<open>The ticks of \<open>runTelemetry\<close>: the time and what the slot and the server hold then.\<close>

definition runTelemetry :: "(int \<times> rl_sys \<times> server) list \<Rightarrow> Summary list" where
  "runTelemetry ticks = fst (Samples new_sampler (map (\<lambda>(now, r, v). (now, take_snapshot r v)) ticks))"

section \<open>The program\<close>

text \<open>\<open>Server.Run\<close>, on what \<open>ListenAndServe\<close> returned: closing by \<open>Shutdown\<close> is not an error.\<close>

definition ErrServerClosed :: goerr where "ErrServerClosed = ErrSentinel ''http: Server closed''"

definition server_Run :: "goerror \<Rightarrow> goerror" where
  "server_Run listen = (if listen \<noteq> None \<and> listen \<noteq> Some ErrServerClosed then listen else None)"

text \<open>What \<open>main\<close> does to the rest of the process, in order.\<close>

datatype main_act =
    SetupAudioEnv PulseConf | GoPulse PulseConf | GoRecorder int | GoTelemetry | GoListener ListenerConf
  | ReportHealth string | GoSupervisor SupConfig | GoPairing Pairer | ServeHTTP string | StopPulse | CancelCtx

definition main_start :: "outside \<Rightarrow> Config \<Rightarrow> fs \<Rightarrow> main_act list" where
  "main_start w cfg f =
    [SetupAudioEnv shim_pulse, GoPulse shim_pulse, GoRecorder (RecorderBuffer cfg), GoTelemetry, GoListener (listener_of cfg)]
    @ (case soloist_gate w cfg f of
         (g, hs, f') \<Rightarrow> map ReportHealth hs @
           (case g of
              GateMissing e \<Rightarrow> []
            | GateSupervise p \<Rightarrow> [GoSupervisor (supervisor_of cfg p)]
            | GatePair p \<Rightarrow> [GoPairing (pairer_of cfg p)]))
    @ [ServeHTTP (ListenAddr cfg)]"

text \<open>The exit status; the deferred calls run, last first, only on a return: \<open>os.Exit\<close> skips them.\<close>

definition main :: "outside \<Rightarrow> env \<Rightarrow> fs \<Rightarrow> goerror \<Rightarrow> main_act list \<times> int" where
  "main w e f listen =
    (case Load e of
       Inl err \<Rightarrow> ([], 1)
     | Inr cfg \<Rightarrow>
        (case server_Run listen of
           Some err \<Rightarrow> (main_start w cfg f, 1)
         | None \<Rightarrow> (main_start w cfg f @ [StopPulse, CancelCtx], 0)))"

section \<open>Facts\<close>

lemma Resolve_smoke:
  assumes "Resolve w b f = (p, None, f')"
  shows "smokeTest w p f' = None"
  using assms by (auto simp: Resolve_def split: if_splits option.splits sum.splits prod.splits)

lemma gate_reports:
  "soloist_gate w cfg f = (GateMissing e, hs, f') \<Longrightarrow> hs = [''soloist_missing'']"
  by (auto simp: soloist_gate_def split: prod.splits option.splits if_splits)

section \<open>Properties\<close>


text \<open>A first start: no binary anywhere, a download, no session, one failed and one good attempt.\<close>

definition shim_config :: Config where
  "shim_config = \<lparr>SoloistAPIKey = ''key'', TeddycloudURL = ''http://teddycloud/'', ListenAddr = '':8080'',
     SoloistDataDir = ''/data'', SoloistCacheDir = ''/cache'', SoloistDeviceName = ''box'', SoloistBin = [],
     SoloistVolume = 80, LogLevel = ''info'', StaticStream = False, StaticSampleRate = 22050, RecorderBuffer = 256\<rparr>"

definition two_tries :: "pair_try list" where
  "two_tries =
    [\<lparr>try_start = None, try_disk = (\<lambda>_. None), try_events = [PairExit (Some (ErrExit 1)) (\<lambda>_. None)], try_wake = TimerFired\<rparr>,
     \<lparr>try_start = None, try_disk = (\<lambda>_. None), try_events = [PairExit None (\<lambda>_. None)], try_wake = TimerFired\<rparr>]"

lemma shim_manager: "manager_of shim_config = demo_manager"
  by (simp add: manager_of_def shim_config_def demo_manager_def)

lemma first_start:
  "soloist_branch demo_outside shim_config (\<lambda>_. None) two_tries =
    (Some (supervisor_of shim_config ''/data/bin/soloist''), [''soloist_unpaired''])"
proof -
  have "Resolve demo_outside (manager_of shim_config) (\<lambda>_. None) = (''/data/bin/soloist'', None, demo_installed)"
    using demo_download
    by (simp add: shim_manager Resolve_def demo_fields demo_path os_Stat_def smokeTest_def)
      (simp add: demo_outside_def demo_installed_def)
  moreover have "Check (SoloistDataDir shim_config) demo_installed = StateUnpaired" by code_simp
  moreover have "fst (Drive (pair_outcomes (pairer_of shim_config p) two_tries) pairingBackoffInitial pairingBackoffMax) = Some PairDone" for p
    by (simp add: two_tries_def Pair_def pair_exit_def Let_def soloist_sleep_def split_beta)
  ultimately show ?thesis by (simp add: soloist_branch_def soloist_gate_def pairThenSupervisor_def)
qed


text \<open>The recorder connects to the socket the daemon is waited for: after a successful \<open>SetupEnv\<close>
  the address computed for the monitor stream is the native socket whose appearance the bring-up
  checks, and the \<open>PULSE_SERVER\<close> all subprocesses inherit, for every configuration.\<close>

theorem pulse_address_agrees:
  assumes "SetupEnv r1 r2 now p env f = (None, env', f')"
  shows "pulseServerSocket env' = ''unix:'' @ socket_path p \<and> env' ''PULSE_SERVER'' = pulseServerSocket env'
    \<and> (waitForSocket p [SockTick g] = Some None \<longleftrightarrow> g (socket_path p) \<noteq> None)"
proof -
  have e: "env' = env(''HOME'' := homeDir p, ''XDG_RUNTIME_DIR'' := runtimeDir p, ''PULSE_SERVER'' := ''unix:'' @ socket_path p)"
    using assms by (auto simp: SetupEnv_def split: prod.splits option.splits)
  have "runtimeDir p \<noteq> []" by (simp add: runtimeDir_def)
  then show ?thesis
    by (auto simp: e pulseServerSocket_def socket_path_def os_Stat_def Let_def split: option.splits)
qed

lemma pulse_address_agrees_witness:
  "pulseServerSocket ((\<lambda>_. [])(''HOME'' := ''/tmp/home'', ''XDG_RUNTIME_DIR'' := ''/tmp/runtime'',
      ''PULSE_SERVER'' := ''unix:/tmp/runtime/pulse/native'')) = ''unix:'' @ socket_path shim_pulse"
proof -
  let ?d = "Some \<lparr>is_dir = True, content = [], mtime = 0\<rparr>"
  let ?f = "(\<lambda>_. None)(''/'' := ?d, ''/tmp'' := ?d, ''/tmp/home'' := ?d, ''/tmp/runtime'' := ?d)"
  have a: "ancestors (length ''/tmp/home'') ''/tmp/home'' = [''/'', ''/tmp'', ''/tmp/home'']"
      "ancestors (length ''/tmp/runtime'') ''/tmp/runtime'' = [''/'', ''/tmp'', ''/tmp/runtime'']"
    by code_simp+
  have s: "socket_path shim_pulse = ''/tmp/runtime/pulse/native''" by code_simp
  have h: "homeDir shim_pulse = ''/tmp/home''" "runtimeDir shim_pulse = ''/tmp/runtime''"
    by (simp_all add: homeDir_def runtimeDir_def shim_pulse_def)
  have "SetupEnv None None 0 shim_pulse (\<lambda>_. []) ?f =
    (None, (\<lambda>_. [])(''HOME'' := ''/tmp/home'', ''XDG_RUNTIME_DIR'' := ''/tmp/runtime'',
      ''PULSE_SERVER'' := ''unix:/tmp/runtime/pulse/native''), ?f)"
    using a by (simp add: SetupEnv_def os_MkdirAll_def s h)
  from pulse_address_agrees [OF this] show ?thesis by blast
qed

text \<open>C16: The components share one health reason and the last report wins: when no Soloist binary was
  found and the audio daemon comes up afterwards, \<open>/healthz\<close> answers 200 although nothing can play;
  in the opposite order it answers 503.\<close>

theorem healthz_masks_missing:
  assumes "soloist_gate w cfg f = (GateMissing e, hs, f')"
    and "pulse_Start shim_pulse b (pulse_init shim_pulse) = Some (None, t)"
  shows "reply_code (handleHealthz (fold SetUnhealthy (hs @ pulse_health t) v)) = 200
    \<and> reply_code (handleHealthz (fold SetUnhealthy (pulse_health t @ hs) v)) = 503"
proof -
  have "pulse_health t = [[]]"
    using assms(2) by (auto simp: pulse_Start_def report_start_def pulse_setHealth_def pulse_setReady_def count_launch_def
        shim_pulse_def pulse_init_def split: option.splits)
  then show ?thesis
    using gate_reports [OF assms(1)] by (simp add: handleHealthz_def SetUnhealthy_def error_reply_def)
qed

lemma healthz_masks_missing_witness:
  "\<exists>t. pulse_Start shim_pulse demo_bringup (pulse_init shim_pulse) = Some (None, t)
    \<and> reply_code (handleHealthz (fold SetUnhealthy ([''soloist_missing''] @ pulse_health t) new_server)) = 200"
proof -
  have p: "shim_pulse = demo_pulse" by (simp add: shim_pulse_def demo_pulse_def)
  have g: "soloist_gate (demo_outside\<lparr>goarch := ''mips''\<rparr>) shim_config (\<lambda>_. None) =
      (GateMissing (ErrWrap ''download soloist'' (ErrText (''unsupported architecture: mips''))), [''soloist_missing''], \<lambda>_. None)"
    by (simp add: soloist_gate_def shim_manager Resolve_def demo_fields demo_path os_Stat_def download_def cdnURL_def)
  obtain t where t: "pulse_Start shim_pulse demo_bringup (pulse_init shim_pulse) = Some (None, t)"
    by (simp add: p pulse_Start_def demo_start)
  then show ?thesis using healthz_masks_missing [OF g t] by blast
qed

text \<open>Nothing is started on a bad configuration; with a good one the audio, the recorder, the telemetry
  and the listener are started whatever becomes of Soloist, which is supervised, paired or reported
  missing; and when the server fails, the program exits without stopping the audio daemon.\<close>

lemma main_lifecycle:
  assumes "main w e f listen = (acts, exit_code)"
  shows "(acts = [] \<longleftrightarrow> (\<exists>err. Load e = Inl err))
    \<and> (exit_code = 0 \<longleftrightarrow> acts \<noteq> [] \<and> server_Run listen = None)
    \<and> (StopPulse \<in> set acts \<longleftrightarrow> exit_code = 0)
    \<and> (\<forall>cfg. Load e = Inr cfg \<longrightarrow>
         {GoPulse shim_pulse, GoRecorder (RecorderBuffer cfg), GoTelemetry, GoListener (listener_of cfg)} \<subseteq> set acts
         \<and> (ReportHealth ''soloist_missing'' \<in> set acts \<longleftrightarrow>
              (\<forall>c. GoSupervisor c \<notin> set acts) \<and> (\<forall>p. GoPairing p \<notin> set acts)))"
proof (cases "Load e")
  case (Inl err)
  then show ?thesis using assms by (auto simp: main_def)
next
  case (Inr cfg)
  obtain g hs f' where g: "soloist_gate w cfg f = (g, hs, f')" by (cases "soloist_gate w cfg f")
  have "(''soloist_missing'' \<in> set hs) = (case g of GateMissing e \<Rightarrow> True | _ \<Rightarrow> False)"
    using g by (auto simp: soloist_gate_def split: prod.splits option.splits if_splits)
  then show ?thesis
    using assms Inr g by (cases g) (auto simp: main_def main_start_def split: option.splits)
qed

end
