(* ===== verification/Capture.thy ===== *)
theory Capture imports Shim begin

text \<open>
  \<open>openMonitorStream\<close> of \<open>cmd/shim/main.go\<close>: the loop that opens the monitor stream (\<open>Monitor\<close>) until
  it succeeds or the context ends, as a step of \<open>runRecorder\<close> (\<open>RecorderLoop\<close>). The answers of the
  library and the end of each wait are arguments; what every attempt leaves open is counted.
\<close>

section \<open>The loop\<close>

record open_try =
  open_ctx :: goerror
  open_lib :: pulse_lib
  open_wait :: wake

fun openMonitorStream :: "string \<Rightarrow> open_try list \<Rightarrow> (goerr + monitorStream) option" where
  "openMonitorStream server [] = None"
| "openMonitorStream server (x # xs) =
    (case fst (OpenMonitorStream (open_ctx x) (open_lib x) server) of
       Inr stream \<Rightarrow> Some (Inr stream)
     | Inl err \<Rightarrow>
        (case open_wait x of CtxDone \<Rightarrow> Some (Inl ErrCanceled) | TimerFired \<Rightarrow> openMonitorStream server xs))"

text \<open>The attempts that were made, and what they leave open.\<close>

fun tries_made :: "string \<Rightarrow> open_try list \<Rightarrow> open_try list" where
  "tries_made server [] = []"
| "tries_made server (x # xs) =
    x # (if isl (fst (OpenMonitorStream (open_ctx x) (open_lib x) server)) \<and> open_wait x = TimerFired
         then tries_made server xs else [])"

definition left_open :: "string \<Rightarrow> open_try list \<Rightarrow> resources list" where
  "left_open server xs =
    filter (\<lambda>r. r \<noteq> no_resources)
      (map (\<lambda>x. snd (OpenMonitorStream (open_ctx x) (open_lib x) server)) (tries_made server xs))"

text \<open>The same attempts as actions of the recorder loop.\<close>

fun open_acts :: "string \<Rightarrow> open_try list \<Rightarrow> rl_act list" where
  "open_acts server [] = []"
| "open_acts server (x # xs) =
    (if isl (fst (OpenMonitorStream (open_ctx x) (open_lib x) server))
     then RLOpened False # (case open_wait x of CtxDone \<Rightarrow> [RLCtx] | TimerFired \<Rightarrow> open_acts server xs)
     else [RLOpened True])"

section \<open>Facts\<close>

lemma open_result:
  obtains (failed) e where "OpenMonitorStream c l server = (Inl e, no_resources)"
  | (opened) m where "OpenMonitorStream c l server = (Inr m, res m)" "res m \<noteq> no_resources"
      "c = None" "connect_err l = None" "record_err l = None"
      "\<exists>sinks. list_sinks l = Inr sinks \<and> SinkName \<in> set sinks"
proof (cases "OpenMonitorStream c l server")
  case (Pair x r)
  note leak = monitor_no_leak [where ctx_err = c and l = l and server = server, unfolded Pair prod.case fst_conv]
  show ?thesis
  proof (cases x)
    case (Inl e)
    then show ?thesis using Pair leak by (intro failed) simp
  next
    case (Inr m)
    have "c = None" "connect_err l = None" "record_err l = None"
        "case list_sinks l of Inl e \<Rightarrow> False | Inr sinks \<Rightarrow> SinkName \<in> set sinks"
      using leak by (simp_all add: Inr)
    moreover from this(4) have "\<exists>sinks. list_sinks l = Inr sinks \<and> SinkName \<in> set sinks"
      by (cases "list_sinks l") simp_all
    moreover have "r = res m" "res m \<noteq> no_resources" using leak by (auto simp: Inr no_resources_def)
    ultimately show ?thesis using Pair Inr by (intro opened) simp_all
  qed
qed

lemma rl_open_step:
  assumes "rlpc s = RLOpen"
  shows "rl_step n (RLOpened ok) s = Some (if ok then open_attempt n s else s)"
    and "rl_cancelled s \<Longrightarrow> rl_step n RLCtx s = Some (s\<lparr>rlpc := RLReturned\<rparr>)"
  using assms by (simp_all add: rl_step_def runRecorder_step_def)

section \<open>Property\<close>

text \<open>C12: The recorder loop opens its stream or leaves nothing behind: for every sequence of answers of
  the audio server, \<open>openMonitorStream\<close> fails only by cancellation, and then nothing is open and the
  loop has returned with no new attempt; when it succeeds the last answer was a good one, exactly
  that stream is open and the loop has published a recorder on it; otherwise it is still trying and
  nothing is open. It goes on trying past every failure that is not followed by cancellation.\<close>

theorem recorder_opens_stream:
  assumes "rlpc s = RLOpen" and "\<forall>x \<in> set xs. open_wait x = CtxDone \<longrightarrow> rl_cancelled s"
  shows "(case openMonitorStream server xs of
      None \<Rightarrow> rl_run n (open_acts server xs) s = Some s \<and> left_open server xs = [] \<and> tries_made server xs = xs
    | Some (Inl e) \<Rightarrow>
        e = ErrCanceled \<and> rl_run n (open_acts server xs) s = Some (s\<lparr>rlpc := RLReturned\<rparr>) \<and> left_open server xs = []
        \<and> rl_cancelled s
    | Some (Inr m) \<Rightarrow>
        rl_run n (open_acts server xs) s = Some (open_attempt n s) \<and> left_open server xs = [res m]
        \<and> connect_err (open_lib (last (tries_made server xs))) = None
        \<and> (\<exists>sinks. list_sinks (open_lib (last (tries_made server xs))) = Inr sinks \<and> SinkName \<in> set sinks))"
  using assms(2)
proof (induction xs)
  case Nil
  show ?case by (simp add: left_open_def)
next
  case (Cons x xs)
  note step = rl_open_step [OF assms(1)]
  show ?case
  proof (cases rule: open_result [of "open_ctx x" "open_lib x" server])
    case (failed e)
    show ?thesis
    proof (cases "open_wait x")
      case CtxDone
      then show ?thesis using failed Cons.prems step by (simp add: left_open_def)
    next
      case TimerFired
      have ne: "tries_made server xs \<noteq> []" if "openMonitorStream server xs = Some (Inr m)" for m
        using that by (cases xs) auto
      have l: "left_open server (x # xs) = left_open server xs"
        using failed TimerFired by (simp add: left_open_def)
      show ?thesis
        using Cons failed TimerFired step l ne by (auto split: option.splits sum.splits)
    qed
  next
    case (opened m)
    then show ?thesis using step by (simp add: left_open_def)
  qed
qed

text \<open>The server is not there, then it does not list the sink, then all is well.\<close>

definition demo_tries :: "open_try list" where
  "demo_tries =
    [\<lparr>open_ctx = None, open_lib = \<lparr>connect_err = Some (ErrText ''refused''), list_sinks = Inr [], record_err = None\<rparr>, open_wait = TimerFired\<rparr>,
     \<lparr>open_ctx = None, open_lib = \<lparr>connect_err = None, list_sinks = Inr [''auto_null''], record_err = None\<rparr>, open_wait = TimerFired\<rparr>,
     \<lparr>open_ctx = None, open_lib = \<lparr>connect_err = None, list_sinks = Inr [''auto_null'', SinkName], record_err = None\<rparr>, open_wait = TimerFired\<rparr>]"

lemma recorder_opens_stream_witness:
  "\<exists>m. openMonitorStream ''unix:/tmp/runtime/pulse/native'' demo_tries = Some (Inr m)
    \<and> rl_run 4 (open_acts ''unix:/tmp/runtime/pulse/native'' demo_tries) (rl_init\<lparr>rlpc := RLOpen\<rparr>)
        = Some (open_attempt 4 (rl_init\<lparr>rlpc := RLOpen\<rparr>))
    \<and> left_open ''unix:/tmp/runtime/pulse/native'' demo_tries = [res m]"
proof -
  let ?u = "''unix:/tmp/runtime/pulse/native''" and ?s = "rl_init\<lparr>rlpc := RLOpen\<rparr>"
  obtain m where m: "openMonitorStream ?u demo_tries = Some (Inr m)"
    by (simp add: demo_tries_def OpenMonitorStream_def findSinkByName_def SinkName_def Let_def)
  have o: "rlpc ?s = RLOpen" "\<forall>x \<in> set demo_tries. open_wait x = CtxDone \<longrightarrow> rl_cancelled ?s"
    by (simp_all add: demo_tries_def)
  show ?thesis using recorder_opens_stream [OF o, where server = ?u and n = 4] m by simp
qed

end
