(* ===== verification/LogLine.thy ===== *)
theory LogLine imports Shim begin

text \<open>
  \<open>logTelemetry\<close> of \<open>cmd/shim/main.go\<close>: the debug line of a telemetry report, with the \<open>%.1f\<close> and
  \<open>%.2f\<close> verbs of \<open>fmt.Sprintf\<close>, and an independent reader of decimal fractions that tells how far
  a printed number is from the number reported.
\<close>

section \<open>Fixed-point decimals\<close>

fun pad_digits :: "nat \<Rightarrow> nat \<Rightarrow> string" where
  "pad_digits 0 n = []"
| "pad_digits (Suc p) n = pad_digits p (n div 10) @ [digit_char (n mod 10)]"

text \<open>The verb \<open>%.pf\<close> for a positive precision: the exact value rounded to \<open>p\<close> decimals, ties to even.\<close>

definition FormatFixed :: "nat \<Rightarrow> rat \<Rightarrow> string" where
  "FormatFixed p x =
    (let n = nat (round_half_even (\<bar>x\<bar> * 10 ^ p))
     in (if x < 0 then ''-'' else []) @ nat_digits (n div 10 ^ p) @ ''.'' @ pad_digits p n)"

text \<open>A reader of non-negative decimal fractions.\<close>

definition read_fixed :: "string \<Rightarrow> rat option" where
  "read_fixed s =
    (let whole = takeWhile (\<lambda>c. c \<noteq> CHR ''.'') s; rest = drop (Suc (length whole)) s
     in case digits_value 0 whole of
          None \<Rightarrow> None
        | Some v \<Rightarrow>
          (case digits_value v rest of None \<Rightarrow> None | Some w \<Rightarrow> Some (of_nat w / 10 ^ length rest)))"

lemma length_pad_digits [simp]: "length (pad_digits p n) = p"
  by (induction p arbitrary: n) simp_all

lemma pad_digits_value: "digits_value acc (pad_digits p n) = Some (acc * 10 ^ p + n mod 10 ^ p)"
proof (induction p arbitrary: n)
  case (Suc p)
  have "n mod 10 ^ Suc p = 10 * (n div 10 mod 10 ^ p) + n mod 10" by (simp add: mod_mult2_eq)
  then show ?case by (simp add: digits_value_append Suc algebra_simps)
qed simp

lemma nat_digits_no_dot: "takeWhile (\<lambda>c. c \<noteq> CHR ''.'') (nat_digits n @ CHR ''.'' # s) = nat_digits n"
proof -
  have "CHR ''.'' \<notin> set (nat_digits n)" using nat_digits_digits [of "CHR ''.''" n] by auto
  then show ?thesis by (auto simp: takeWhile_append)
qed

lemma read_FormatFixed:
  assumes "0 \<le> x"
  shows "read_fixed (FormatFixed p x) = Some (of_int (round_half_even (x * 10 ^ p)) / 10 ^ p)"
proof -
  let ?n = "nat (round_half_even (x * 10 ^ p))"
  have "0 \<le> round_half_even (x * 10 ^ p)"
    using round_half_even_mono [of 0 "x * 10 ^ p"] round_half_even_int [of 0] assms by simp
  then have "of_nat ?n = (of_int (round_half_even (x * 10 ^ p)) :: rat)" by simp
  moreover have "?n div 10 ^ p * 10 ^ p + ?n mod 10 ^ p = ?n" by (rule div_mult_mod_eq)
  ultimately show ?thesis
    using assms
    by (simp add: FormatFixed_def read_fixed_def Let_def nat_digits_no_dot digits_value_nat_digits pad_digits_value)
qed

lemma round_half_even_close: "\<bar>of_int (round_half_even x) - x\<bar> \<le> 1 / 2"
proof -
  have "x < of_int \<lfloor>x\<rfloor> + 1" "of_int \<lfloor>x\<rfloor> \<le> x" by linarith+
  then show ?thesis by (auto simp: round_half_even_def Let_def abs_le_iff)
qed

text \<open>A printed number is within half a unit of its last decimal.\<close>

definition prints :: "nat \<Rightarrow> rat \<Rightarrow> string \<Rightarrow> bool" where
  "prints p x t \<longleftrightarrow> (case read_fixed t of None \<Rightarrow> False | Some q \<Rightarrow> \<bar>q - x\<bar> \<le> 1 / (2 * 10 ^ p))"

lemma FormatFixed_prints:
  assumes "0 \<le> x"
  shows "prints p x (FormatFixed p x)"
proof -
  have "of_int (round_half_even (x * 10 ^ p)) / 10 ^ p - x = (of_int (round_half_even (x * 10 ^ p)) - x * 10 ^ p) / 10 ^ p"
    by (simp add: field_simps)
  then have "\<bar>of_int (round_half_even (x * 10 ^ p)) / 10 ^ p - x\<bar> = \<bar>of_int (round_half_even (x * 10 ^ p)) - x * 10 ^ p\<bar> / 10 ^ p"
    by (simp only: abs_divide) simp
  also have "\<dots> \<le> 1 / 2 / 10 ^ p"
    by (rule divide_right_mono [OF round_half_even_close]) simp
  finally show ?thesis by (simp add: prints_def read_FormatFixed [OF assms])
qed

section \<open>The line\<close>

definition logTelemetry :: "Summary \<Rightarrow> (string \<times> string) list" where
  "logTelemetry s =
    [(''chunks_s'', FormatFixed 1 (ChunksPerSec s)),
     (''dropped_s'', FormatFixed 1 (DroppedPerSec s)),
     (''drop_ratio'', FormatFixed 2 (DropRatio s)),
     (''delivered_kB_s'', FormatFixed 1 (DeliveredKiBps s)),
     (''streams'', Itoa (sint (SumStreams s)))]"

text \<open>The lines of a run: they are written at the debug level only.\<close>

definition telemetry_log :: "Config \<Rightarrow> (int \<times> rl_sys \<times> server) list \<Rightarrow> (string \<times> string) list list" where
  "telemetry_log cfg ticks =
    (if setupLogger (LogLevel cfg) = LevelDebug then map logTelemetry (runTelemetry ticks) else [])"

text \<open>What a reader of the line may rely on.\<close>

definition line_true :: "Summary \<Rightarrow> (string \<times> string) list \<Rightarrow> bool" where
  "line_true s line \<longleftrightarrow>
     (case map snd line of
        [c, d, r, k, n] \<Rightarrow>
          prints 1 (ChunksPerSec s) c \<and> prints 1 (DroppedPerSec s) d \<and> prints 2 (DropRatio s) r
          \<and> prints 1 (DeliveredKiBps s) k \<and> Atoi n = Some (sint (SumStreams s))
          \<and> (case read_fixed r of None \<Rightarrow> False | Some q \<Rightarrow> 0 \<le> q \<and> q \<le> 1)
      | _ \<Rightarrow> False)"

lemma logTelemetry_true:
  assumes "rates_sane s"
  shows "line_true s (logTelemetry s)"
proof -
  have nn: "0 \<le> ChunksPerSec s" "0 \<le> DroppedPerSec s" "0 \<le> DeliveredKiBps s" "0 \<le> DropRatio s" "DropRatio s \<le> 1"
    using assms by (simp_all add: rates_sane_def)
  have "Atoi (Itoa (sint (SumStreams s))) = Some (sint (SumStreams s))"
    using sint_greater_eq [of "SumStreams s"] sint_lt [of "SumStreams s"] by (intro Atoi_Itoa) simp_all
  moreover have "0 \<le> round_half_even (DropRatio s * 10 ^ 2)" "round_half_even (DropRatio s * 10 ^ 2) \<le> 100"
    using round_half_even_mono [of 0 "DropRatio s * 10 ^ 2"] round_half_even_mono [of "DropRatio s * 10 ^ 2" 100]
      round_half_even_int [of 0] round_half_even_int [of 100] nn by simp_all
  then have "(0::rat) \<le> of_int (round_half_even (DropRatio s * 10 ^ 2)) / 10 ^ 2 \<and>
      of_int (round_half_even (DropRatio s * 10 ^ 2)) / 10 ^ 2 \<le> (1::rat)" by simp
  ultimately show ?thesis
    using nn by (simp add: line_true_def logTelemetry_def FormatFixed_prints read_FormatFixed)
qed

section \<open>Property\<close>

text \<open>C22: The debug lines tell the truth: one line per report, each number printed within half a unit of
  its last decimal of the reported one, the drop ratio never outside 0.00 to 1.00 and the number of
  streams exact, for all readings of the counters and the clock; at other levels there are none.\<close>

theorem telemetry_log_true:
  "(if LogLevel cfg = ''debug'' then list_all2 line_true (runTelemetry ticks) (telemetry_log cfg ticks)
    else telemetry_log cfg ticks = [])"
proof -
  have "list_all2 line_true (runTelemetry ticks) (map logTelemetry (runTelemetry ticks))"
    using logTelemetry_true Samples_sane by (auto simp: runTelemetry_def list_all2_conv_all_nth list_all_length)
  then show ?thesis by (auto simp: telemetry_log_def setupLogger_def)
qed

end
