(* ===== verification/Pipeline.thy ===== *)
theory Pipeline imports StreamFlow RecorderLoop begin

text \<open>
  The audio path of the shim as one system: the recorder loop of \<open>cmd/shim/main.go\<close>, the pump of
  each recorder (\<open>internal/audio/recorder.go\<close>) and the concurrent \<open>/stream\<close> requests
  (\<open>internal/server/stream.go\<close>). The three models are composed by sharing what the code shares: a
  recorder is the source of its outlet, so a send of its pump is what feeds the outlet, and the slot
  of the streams is set by the loop. A pump may be stopped or cancelled at any time, which includes
  whenever the loop or a watchdog does it; the loop learns of a pump's end only when it has ended.
  The theory follows the bytes from the monitor to the wire.
\<close>

section \<open>The composed system\<close>

text \<open>Recorder \<open>k\<close> is the source of outlet \<open>k\<close>; \<open>pumps ! k\<close> has the rest of its goroutine.\<close>

record pipe_sys =
  loop :: rl_sys
  streams :: stream_sys
  pumps :: "rec_sys list"

datatype pipe_act = Loop rl_act | Stream stream_act | Pump nat action

definition pipe_init :: pipe_sys where
  "pipe_init = \<lparr>loop = rl_init, streams = stream_init, pumps = []\<rparr>"

text \<open>The steps of a pump, and what the recorder loop and its watchdogs do to it; starting it is
  part of a new attempt, and receiving and flushing belong to the streams.\<close>

fun pump_act :: "action \<Rightarrow> bool" where
  "pump_act ActSelect = True"
| "pump_act (ActRead bs err) = True"
| "pump_act ActEmit = True"
| "pump_act ActStop = True"
| "pump_act ActCancel = True"
| "pump_act _ = False"

definition pump_at :: "nat \<Rightarrow> pipe_sys \<Rightarrow> rec_sys option" where
  "pump_at k s =
    (if length (pumps s) \<le> k \<or> length (outlets (streams s)) \<le> k then None
     else case src_of (outlets (streams s) ! k) of
       SrcRec p \<Rightarrow> Some ((pumps s ! k)\<lparr>rcd := p\<rparr>)
     | SrcStatic x \<Rightarrow> None)"

text \<open>The chunks a pump got into its channel between two states.\<close>

definition accepted :: "rec_sys \<Rightarrow> rec_sys \<Rightarrow> chunk list" where
  "accepted p q = map snd (filter fst (drop (length (emitted p)) (emitted q)))"

definition put_pump :: "nat \<Rightarrow> rec_sys \<Rightarrow> rec_sys \<Rightarrow> pipe_sys \<Rightarrow> pipe_sys" where
  "put_pump k p q s =
    (let u = streams s
     in s\<lparr>pumps := (pumps s)[k := q],
          streams := u\<lparr>outlets := (outlets u)[k :=
            \<lparr>src_of = SrcRec (rcd q), fed = fed (outlets u ! k) @ accepted p q\<rparr>]\<rparr>\<rparr>)"

definition pump_step :: "nat \<Rightarrow> action \<Rightarrow> pipe_sys \<Rightarrow> pipe_sys option" where
  "pump_step k a s =
    (case pump_at k s of
       None \<Rightarrow> None
     | Some p \<Rightarrow>
        (if \<not> pump_act a then None
         else case rec_step a p of None \<Rightarrow> None | Some q \<Rightarrow> Some (put_pump k p q s)))"

text \<open>What a step of the recorder loop does to the slot, in the terms of the streams.\<close>

definition slot_acts :: "int \<Rightarrow> rl_act \<Rightarrow> rl_sys \<Rightarrow> stream_act list" where
  "slot_acts n a r =
    (case a of
       RLOpened ok \<Rightarrow> (if ok \<and> rlpc r = RLOpen then [NewRecorder n] else [])
     | RLCtx \<Rightarrow> (case rlpc r of RLWatch k \<Rightarrow> [NoRecorder] | _ \<Rightarrow> [])
     | RLPumpDone \<Rightarrow> [NoRecorder]
     | _ \<Rightarrow> [])"

text \<open>The end of a pump is seen by the loop only when the pump has ended.\<close>

definition pump_ended :: "rl_act \<Rightarrow> pipe_sys \<Rightarrow> bool" where
  "pump_ended a s =
    (case a of PumpEnd k \<Rightarrow> k < length (pumps s) \<and> pc (pumps s ! k) = PDone | _ \<Rightarrow> True)"

definition loop_step :: "int \<Rightarrow> rl_act \<Rightarrow> pipe_sys \<Rightarrow> pipe_sys option" where
  "loop_step n a s =
    (if \<not> pump_ended a s then None
     else case rl_step n a (loop s) of
       None \<Rightarrow> None
     | Some r \<Rightarrow>
        (case stream_run live_conf (slot_acts n a (loop s)) (streams s) of
           None \<Rightarrow> None
         | Some u \<Rightarrow>
            Some (s\<lparr>loop := r, streams := u,
              pumps := pumps s @ replicate (length (outlets u) - length (outlets (streams s))) (step_start (init_sys 0 n))\<rparr>)))"

fun stream_own :: "stream_act \<Rightarrow> bool" where
  "stream_own (Handler i r) = True"
| "stream_own (Arrive uri r) = True"
| "stream_own (Disconnect i) = True"
| "stream_own (Report r) = True"
| "stream_own _ = False"

fun pipe_step :: "int \<Rightarrow> pipe_act \<Rightarrow> pipe_sys \<Rightarrow> pipe_sys option" where
  "pipe_step n (Loop a) s = loop_step n a s"
| "pipe_step n (Pump k a) s = pump_step k a s"
| "pipe_step n (Stream a) s =
    (if \<not> stream_own a then None
     else case stream_step live_conf a (streams s) of None \<Rightarrow> None | Some u \<Rightarrow> Some (s\<lparr>streams := u\<rparr>))"

fun pipe_run :: "int \<Rightarrow> pipe_act list \<Rightarrow> pipe_sys \<Rightarrow> pipe_sys option" where
  "pipe_run n [] s = Some s"
| "pipe_run n (a # as) s = (case pipe_step n a s of None \<Rightarrow> None | Some t \<Rightarrow> pipe_run n as t)"

inductive pipe_reach :: "int \<Rightarrow> pipe_sys \<Rightarrow> bool" for n where
  pipe_zero: "pipe_reach n pipe_init"
| pipe_next: "pipe_reach n s \<Longrightarrow> pipe_step n a s = Some t \<Longrightarrow> pipe_reach n t"

lemma pipe_run_reach: "pipe_run n as s = Some t \<Longrightarrow> pipe_reach n s \<Longrightarrow> pipe_reach n t"
  by (induction as arbitrary: s) (auto split: option.splits intro: pipe_reach.intros)

section \<open>What a step does to the audio path\<close>

text \<open>The fields of a recorder only its own goroutine and its starter use.\<close>

definition kept :: "PulseRecorder \<Rightarrow> PulseRecorder \<Rightarrow> bool" where
  "kept p q \<longleftrightarrow> ChunkSize q = ChunkSize p \<and> BufferLen q = BufferLen p \<and> startOnce q = startOnce p \<and> doneCh q = doneCh p"

lemma kept_refl [simp]: "kept p p"
  by (simp add: kept_def)

lemma kept_ops [simp]: "startOnce p \<Longrightarrow> kept p (RecFlush p)" "kept p (snd (RecChunks p))" "kept p (p\<lparr>chunkCh := ch\<rparr>)"
  by (simp_all add: kept_def recorder_op_defs split: option.split)

lemma slot_counters [simp]: "slot (count_bytes n s) = slot s" "slot (count_active d s) = slot s"
  by (simp_all add: count_bytes_def count_active_def)

text \<open>A step of the streams keeps every recorder's own fields and what it has accepted.\<close>

definition same_feed :: "outlet \<Rightarrow> outlet \<Rightarrow> bool" where
  "same_feed x y \<longleftrightarrow> (\<forall>p. src_of x = SrcRec p \<longrightarrow>
     (\<exists>q. src_of y = SrcRec q \<and> (startOnce p \<longrightarrow> kept p q)) \<and> fed y = fed x)"

lemma same_feed_refl [simp]: "same_feed x x"
  by (simp add: same_feed_def)

lemma same_feed_src:
  assumes "\<And>p. src_of (outlets s ! k) = SrcRec p \<Longrightarrow> \<exists>q. y = SrcRec q \<and> (startOnce p \<longrightarrow> kept p q)"
  shows "same_feed (outlets s ! j) (outlets (set_src k y s) ! j)"
proof (cases "j = k \<and> k < length (outlets s)")
  case True
  then show ?thesis using assms by (simp add: same_feed_def set_src_def)
next
  case False
  then have "outlets (set_src k y s) ! j = outlets s ! j"
    by (auto simp: set_src_def list_update_beyond not_less)
  then show ?thesis by simp
qed

lemma stream_keeps_feed:
  assumes "stream_step live_conf a s = Some t" and "stream_own a"
  shows "length (outlets t) = length (outlets s) \<and> slot t = slot s \<and> same_feed (outlets s ! k) (outlets t ! k)"
  using assms(1)
proof (cases rule: stream_step_cases)
  case (accept i h r j u)
  have "u = s" using accept(6) by (simp add: srcFunc_def live_conf_def)
  then show ?thesis by (simp add: accept(7))
next
  case (drop_stale i h r)
  have "same_feed (outlets s ! k) (outlets (set_src (hsrc h) (flushStalePreFill (src_of (outlets s ! hsrc h))) s) ! k)"
    by (rule same_feed_src) auto
  then show ?thesis using drop_stale by (simp add: step_drop_stale_def Let_def)
next
  case (header i h r)
  have "same_feed (outlets s ! k) (outlets (set_src (hsrc h) (snd (SrcChunks (src_of (outlets s ! hsrc h)))) s) ! k)"
    by (rule same_feed_src) (auto simp: split_beta)
  then show ?thesis using header by (simp add: step_header_def Let_def)
next
  case (chunk i h r ch x ch' m b)
  have "same_feed (outlets s ! k) (outlets (set_src (hsrc h) (with_chan ch' (src_of (outlets s ! hsrc h))) s) ! k)"
    by (rule same_feed_src) auto
  then show ?thesis using chunk by simp
next
  case (close i h r)
  have "same_feed (outlets s ! k) (outlets (set_src (hsrc h) (SrcClose (src_of (outlets s ! hsrc h))) s) ! k)"
    by (rule same_feed_src) auto
  then show ?thesis using close by (simp add: step_close_def)
qed (use assms(2) in \<open>simp_all add: step_register_def step_play_def step_leave_def step_unregister_def Let_def\<close>)

text \<open>A step of a pump: what it emits is appended, what of that was accepted waits in the channel.\<close>

lemma pump_effect:
  assumes "rec_step a p = Some q" and "pump_act a"
  shows "\<exists>es. emitted q = emitted p @ es \<and> accepted p q = map snd (filter fst es)
    \<and> waiting (SrcRec (rcd q)) = waiting (SrcRec (rcd p)) @ accepted p q"
proof (cases a)
  case ActEmit
  then have "step_emit p = Some q" using assms(1) by simp
  then show ?thesis
    by (cases rule: step_emit_cases) (auto simp: accepted_def waiting_def pump_exit_def)
qed (use assms in \<open>auto simp: accepted_def waiting_def op_step_simps RecStop_def Let_def split: if_splits option.splits\<close>)

lemma pump_grows:
  assumes "rec_step a p = Some q" and "pump_act a"
  shows "prefix (emitted p) (emitted q) \<and> prefix (src_bytes p) (src_bytes q)"
proof -
  have "prefix (src_bytes p) (src_bytes q)"
  proof (cases a)
    case ActEmit
    then have "step_emit p = Some q" using assms(1) by simp
    then show ?thesis by (cases rule: step_emit_cases) (auto simp: pump_exit_def)
  qed (use assms in \<open>auto simp: op_step_simps split: if_splits\<close>)
  then show ?thesis using pump_effect [OF assms] by auto
qed

lemma outlet_le_feeds:
  assumes "outlet_ok x" and "waiting y = waiting (src_of x) @ cs" and "SrcSampleRate y = SrcSampleRate (src_of x)"
    and "is_rec y = is_rec (src_of x)"
  shows "outlet_le x \<lparr>src_of = y, fed = fed x @ cs\<rparr>"
  using assms by (auto simp: outlet_le_def outlet_ok_def head_pos_def)

section \<open>The invariant\<close>

text \<open>An outlet and its pump: what was accepted is what the pump sent, the pump is framed and its
  program counter agrees with the recorder's fields.\<close>

definition pump_ok :: "int \<Rightarrow> outlet \<Rightarrow> rec_sys \<Rightarrow> bool" where
  "pump_ok n x p \<longleftrightarrow>
     (\<exists>q. src_of x = SrcRec q \<and> startOnce q \<and> framing 0 n (p\<lparr>rcd := q\<rparr>) \<and> control (p\<lparr>rcd := q\<rparr>))
     \<and> fed x = map snd (filter fst (emitted p))"

definition pipe_ok :: "int \<Rightarrow> pipe_sys \<Rightarrow> bool" where
  "pipe_ok n s \<longleftrightarrow>
     flow_ok (streams s) \<and> slot (streams s) = rslot (loop s)
     \<and> length (outlets (streams s)) = length (rl_attempts (loop s))
     \<and> length (pumps s) = length (outlets (streams s))
     \<and> (\<forall>k < length (pumps s). pump_ok n (outlets (streams s) ! k) (pumps s ! k))"

lemma pump_ok_kept:
  assumes "pump_ok n x p" and "same_feed x y"
  shows "pump_ok n y p"
proof -
  obtain q where q: "src_of x = SrcRec q" "startOnce q" "framing 0 n (p\<lparr>rcd := q\<rparr>)" "control (p\<lparr>rcd := q\<rparr>)"
    using assms(1) by (auto simp: pump_ok_def)
  obtain q' where q': "src_of y = SrcRec q'" "kept q q'" "fed y = fed x"
    using assms(2) q(1,2) by (auto simp: same_feed_def)
  have "chunkSize q' = chunkSize q" using q'(2) by (simp add: kept_def chunkSize_def)
  then have "framing 0 n (p\<lparr>rcd := q'\<rparr>)" "control (p\<lparr>rcd := q'\<rparr>)"
    using q(3,4) q'(2) by (auto simp: framing_def control_def kept_def split: pump_pc.splits)
  then show ?thesis using assms(1) q q' by (auto simp: pump_ok_def kept_def)
qed

lemma own_startOnce: "rec_step a p = Some q \<Longrightarrow> pump_act a \<Longrightarrow> startOnce (rcd q) = startOnce (rcd p)"
  by (cases a) (auto simp: op_step_simps RecStop_def Let_def step_emit_def split: if_splits pump_pc.splits option.splits)

lemma pump_ok_step:
  assumes "pump_ok n x p" and "src_of x = SrcRec q" and "rec_step a (p\<lparr>rcd := q\<rparr>) = Some p'" and "pump_act a"
  shows "pump_ok n \<lparr>src_of = SrcRec (rcd p'), fed = fed x @ accepted (p\<lparr>rcd := q\<rparr>) p'\<rparr> p'"
proof -
  have f: "startOnce q" "framing 0 n (p\<lparr>rcd := q\<rparr>)" "control (p\<lparr>rcd := q\<rparr>)" "fed x = map snd (filter fst (emitted p))"
    using assms(1,2) by (auto simp: pump_ok_def)
  obtain es where "emitted p' = emitted p @ es" "accepted (p\<lparr>rcd := q\<rparr>) p' = map snd (filter fst es)"
    using pump_effect [OF assms(3,4)] by auto
  then show ?thesis
    using f framing_step [OF f(2) assms(3)] control_step [OF f(3) assms(3)] own_startOnce [OF assms(3,4)]
    by (simp add: pump_ok_def)
qed

lemma pump_outlet_le:
  assumes "outlet_ok x" and "src_of x = SrcRec q" and "rec_step a (p\<lparr>rcd := q\<rparr>) = Some p'" and "pump_act a"
  shows "outlet_le x \<lparr>src_of = SrcRec (rcd p'), fed = fed x @ accepted (p\<lparr>rcd := q\<rparr>) p'\<rparr>"
  using outlet_le_feeds [OF assms(1)] pump_effect [OF assms(3,4)] assms(2) by (auto simp: RecSampleRate_def)

lemma pump_step_Some:
  assumes "pump_step k a s = Some t"
  obtains q p' where "k < length (pumps s)" "k < length (outlets (streams s))" "src_of (outlets (streams s) ! k) = SrcRec q"
    "pump_act a" "rec_step a ((pumps s ! k)\<lparr>rcd := q\<rparr>) = Some p'" "t = put_pump k ((pumps s ! k)\<lparr>rcd := q\<rparr>) p' s"
  using assms by (auto simp: pump_step_def pump_at_def split: option.splits if_splits source.splits)

lemma put_pump_simps [simp]:
  "loop (put_pump k p q s) = loop s" "pumps (put_pump k p q s) = (pumps s)[k := q]"
  "handlers (streams (put_pump k p q s)) = handlers (streams s)" "slot (streams (put_pump k p q s)) = slot (streams s)"
  "outlets (streams (put_pump k p q s)) =
     (outlets (streams s))[k := \<lparr>src_of = SrcRec (rcd q), fed = fed (outlets (streams s) ! k) @ accepted p q\<rparr>]"
  by (simp_all add: put_pump_def Let_def)

lemma new_pump_ok:
  "pump_ok n \<lparr>src_of = SrcRec (RecStart (new_recorder 0 n)), fed = []\<rparr> (step_start (init_sys 0 n))"
  by (auto simp: pump_ok_def framing_def control_def step_start_def init_sys_def recorder_op_defs new_recorder_def
      chunkSize_def defaultChunkSize_def)

text \<open>A step of the loop: a new attempt appends an outlet and its pump, the slot follows the loop's.\<close>

lemma slot_acts_run:
  assumes "rl_step n a r = Some r'" and "slot u = rslot r" and "length (outlets u) = length (rl_attempts r)"
  obtains (opened) "stream_run live_conf (slot_acts n a r) u = Some
        (u\<lparr>outlets := outlets u @ [\<lparr>src_of = SrcRec (RecStart (new_recorder 0 n)), fed = []\<rparr>], slot := Some (length (outlets u))\<rparr>)"
      "rslot r' = Some (length (outlets u))" "length (rl_attempts r') = Suc (length (outlets u))"
  | (released) "stream_run live_conf (slot_acts n a r) u = Some (u\<lparr>slot := None\<rparr>)" "rslot r' = None"
      "length (rl_attempts r') = length (outlets u)"
  | (other) "stream_run live_conf (slot_acts n a r) u = Some u" "rslot r' = slot u"
      "length (rl_attempts r') = length (outlets u)"
proof (cases "runRecorder_step n a r")
  case None
  then have w: "watchdog_step a r = Some r' \<or> rl_env a r = Some r'"
    using assms(1) by (auto simp: rl_step_def split: option.splits)
  then have "slot_acts n a r = []"
    by (cases a) (auto simp: slot_acts_def watchdog_step_def rl_env_def)
  then show ?thesis
    using w assms(2,3) by (cases a) (auto simp: watchdog_step_def rl_env_def set_attempt_def split: if_splits intro: other)
next
  case (Some x)
  then have x: "runRecorder_step n a r = Some r'" using assms(1) by (simp add: rl_step_def)
  show ?thesis
    using x assms(2,3)
    by (cases "rlpc r"; cases a)
      (auto simp: runRecorder_step_def slot_acts_def stream_step_def open_attempt_def slot_set_def set_attempt_def Let_def
        split: if_splits intro: opened released other)
qed

lemma pipe_ok_streams:
  assumes "pipe_ok n s" and "stream_step live_conf a (streams s) = Some u" and "stream_own a"
  shows "pipe_ok n (s\<lparr>streams := u\<rparr>)"
proof -
  note k = stream_keeps_feed [OF assms(2,3)]
  have "flow_ok u" using assms(1,2) flow_step by (auto simp: pipe_ok_def)
  moreover have "pump_ok n (outlets u ! j) (pumps s ! j)" if "j < length (pumps s)" for j
    using assms(1) that k pump_ok_kept by (fastforce simp: pipe_ok_def)
  ultimately show ?thesis using assms(1) k by (simp add: pipe_ok_def)
qed

lemma pipe_ok_pump:
  assumes "pipe_ok n s" and "pump_step k a s = Some t"
  shows "pipe_ok n t"
  using assms(2)
proof (cases rule: pump_step_Some)
  case (1 q p')
  have o: "outlet_ok (outlets (streams s) ! k)" and p: "pump_ok n (outlets (streams s) ! k) (pumps s ! k)"
    using assms(1) 1(1,2) by (auto simp: pipe_ok_def outlet_at)
  have "outlets_grow (outlets (streams s)) (outlets (streams t))"
    unfolding 1(6) put_pump_simps
    by (rule outlets_grow_update) (use assms(1) pump_outlet_le [OF o 1(3,5,4)] in \<open>auto simp: pipe_ok_def flow_ok_def\<close>)
  then have "flow_ok (streams t)"
    by (rule flow_ok_environment [rotated]) (use assms(1) 1(6) in \<open>simp_all add: pipe_ok_def\<close>)
  moreover have "pump_ok n (outlets (streams t) ! j) (pumps t ! j)" if "j < length (pumps t)" for j
    using assms(1) that pump_ok_step [OF p 1(3,5,4)] 1(1,2,6) by (cases "j = k") (auto simp: pipe_ok_def)
  ultimately show ?thesis using assms(1) 1(6) by (simp add: pipe_ok_def)
qed

lemma pipe_ok_loop:
  assumes "pipe_ok n s" and "loop_step n a s = Some t"
  shows "pipe_ok n t"
proof -
  let ?u = "streams s"
  have s: "slot ?u = rslot (loop s)" "length (outlets ?u) = length (rl_attempts (loop s))" using assms(1) by (simp_all add: pipe_ok_def)
  obtain r where r: "rl_step n a (loop s) = Some r"
    using assms(2) by (auto simp: loop_step_def split: if_splits option.splits)
  from r s show ?thesis
  proof (cases rule: slot_acts_run)
    case opened
    let ?x = "\<lparr>src_of = SrcRec (RecStart (new_recorder 0 n)), fed = []\<rparr>"
    have t: "t = s\<lparr>loop := r, streams := ?u\<lparr>outlets := outlets ?u @ [?x], slot := Some (length (outlets ?u))\<rparr>,
        pumps := pumps s @ [step_start (init_sys 0 n)]\<rparr>"
      using assms(2) r opened(1) by (simp add: loop_step_def split: if_splits)
    have "flow_ok (streams t)"
      using flow_step [of ?u live_conf "NewRecorder n"] assms(1) by (simp add: t pipe_ok_def stream_step_def)
    moreover have "pump_ok n (outlets (streams t) ! j) (pumps t ! j)" if "j < length (pumps t)" for j
      using assms(1) that new_pump_ok by (auto simp: t pipe_ok_def nth_append less_Suc_eq)
    ultimately show ?thesis using assms(1) opened(2,3) by (simp add: t pipe_ok_def)
  next
    case released
    have t: "t = s\<lparr>loop := r, streams := ?u\<lparr>slot := None\<rparr>\<rparr>"
      using assms(2) r released(1) by (simp add: loop_step_def split: if_splits)
    have "flow_ok (streams t)"
      using flow_step [of ?u live_conf NoRecorder] assms(1) by (simp add: t pipe_ok_def stream_step_def)
    then show ?thesis using assms(1) released(2,3) by (simp add: t pipe_ok_def)
  next
    case other
    have "t = s\<lparr>loop := r\<rparr>"
      using assms(2) r other(1) by (simp add: loop_step_def split: if_splits)
    then show ?thesis using assms(1) other(2,3) by (simp add: pipe_ok_def)
  qed
qed

lemma pipe_ok_step:
  assumes "pipe_ok n s" and "pipe_step n a s = Some t"
  shows "pipe_ok n t"
  using assms(2) pipe_ok_streams [OF assms(1)] pipe_ok_pump [OF assms(1)] pipe_ok_loop [OF assms(1)]
  by (cases a) (auto split: if_splits option.splits)

lemma pipe_ok_reach: "pipe_reach n s \<Longrightarrow> pipe_ok n s \<and> rl_reach n (loop s)"
proof (induction rule: pipe_reach.induct)
  case pipe_zero
  show ?case by (simp add: pipe_ok_def pipe_init_def stream_init_def rl_init_def flow_ok_def rl_zero [unfolded rl_init_def])
next
  case (pipe_next s a t)
  have "rl_reach n (loop t)"
    using pipe_next by (cases a) (auto simp: loop_step_def elim!: pump_step_Some split: if_splits option.splits intro: rl_next)
  then show ?case using pipe_ok_step pipe_next by blast
qed

section \<open>Runs\<close>

text \<open>A pump only appends; an attached handler stays with its source.\<close>

definition pump_le :: "rec_sys \<Rightarrow> rec_sys \<Rightarrow> bool" where
  "pump_le p q \<longleftrightarrow> prefix (emitted p) (emitted q) \<and> prefix (src_bytes p) (src_bytes q)"

lemma pump_le_refl [simp]: "pump_le p p"
  by (simp add: pump_le_def)

lemma pump_le_trans: "pump_le p q \<Longrightarrow> pump_le q r \<Longrightarrow> pump_le p r"
  by (auto simp: pump_le_def)

lemma pipe_step_pumps:
  assumes "pipe_step n a s = Some t" and "k < length (pumps s)"
  shows "pump_le (pumps s ! k) (pumps t ! k) \<and> k < length (pumps t)"
proof (cases a)
  case (Pump j b)
  then have "pump_step j b s = Some t" using assms(1) by simp
  then show ?thesis
    by (cases rule: pump_step_Some) (use assms(2) pump_grows in \<open>fastforce simp: pump_le_def nth_list_update\<close>)
qed (use assms in \<open>auto simp: loop_step_def nth_append split: if_splits option.splits\<close>)

lemma pipe_run_pumps:
  "pipe_run n as s = Some t \<Longrightarrow> k < length (pumps s) \<Longrightarrow> pump_le (pumps s ! k) (pumps t ! k) \<and> k < length (pumps t)"
proof (induction as arbitrary: s)
  case (Cons a as)
  then obtain u where u: "pipe_step n a s = Some u" "pipe_run n as u = Some t" by (auto split: option.splits)
  then show ?case using pipe_step_pumps [OF u(1) Cons.prems(2)] Cons.IH [OF u(2)] pump_le_trans by blast
qed simp

lemma loop_handlers:
  assumes "loop_step n a s = Some t"
  shows "handlers (streams t) = handlers (streams s)"
  using assms
  by (auto simp: loop_step_def slot_acts_def stream_step_def split: if_splits option.splits rl_act.splits rl_pc.splits)

lemma begun_pipe_step:
  assumes "pipe_step n a s = Some t" and "i < length (handlers (streams s))"
    and "hpc (handlers (streams s) ! i) \<notin> {HStart, HRegister, HFlush}"
  shows "begun (handlers (streams s) ! i) (handlers (streams t) ! i) \<and> i < length (handlers (streams t))"
proof (cases a)
  case (Stream b)
  then show ?thesis using assms begun_step by (auto split: if_splits option.splits)
next
  case (Loop b)
  then show ?thesis using assms loop_handlers by (simp add: begun_def)
next
  case (Pump j b)
  then have "pump_step j b s = Some t" using assms(1) by simp
  then show ?thesis by (cases rule: pump_step_Some) (use assms(2,3) in \<open>simp add: begun_def\<close>)
qed

lemma begun_pipe_run:
  "pipe_run n as s = Some t \<Longrightarrow> i < length (handlers (streams s)) \<Longrightarrow>
    hpc (handlers (streams s) ! i) \<notin> {HStart, HRegister, HFlush} \<Longrightarrow>
    begun (handlers (streams s) ! i) (handlers (streams t) ! i) \<and> i < length (handlers (streams t))"
proof (induction as arbitrary: s)
  case (Cons a as)
  then obtain u where u: "pipe_step n a s = Some u" "pipe_run n as u = Some t" by (auto split: option.splits)
  then show ?case using begun_pipe_step [OF u(1) Cons.prems(2,3)] Cons.IH [OF u(2)] by (auto simp: begun_def)
qed (simp add: begun_def)

text \<open>The moment a request attaches to its recorder.\<close>

lemma attach:
  assumes "pipe_ok n s" and "i < length (handlers (streams s))" and "hpc (handlers (streams s) ! i) = HFlush"
    and "k = hsrc (handlers (streams s) ! i)" and "pipe_run n (Stream (Handler i r) # as) s = Some t"
  obtains u where "pipe_run n as u = Some t" "pipe_ok n u" "k < length (pumps s)" "pumps u = pumps s"
    "i < length (handlers (streams u))" "hpc (handlers (streams u) ! i) = HPlay" "hsrc (handlers (streams u) ! i) = k"
    "since (handlers (streams u) ! i) = length (fed (outlets (streams u) ! k))" "got (handlers (streams u) ! i) = []"
    "waiting (src_of (outlets (streams u) ! k)) = []" "fed (outlets (streams u) ! k) = fed (outlets (streams s) ! k)"
    "k < length (outlets (streams u))"
proof -
  let ?h = "handlers (streams s) ! i" and ?v = "step_drop_stale i (handlers (streams s) ! i) (streams s)"
  have v: "pipe_step n (Stream (Handler i r)) s = Some (s\<lparr>streams := ?v\<rparr>)"
    using assms(2,3) by (simp add: stream_step_def handleStream_step_def)
  have h: "handler_ok (outlets (streams s)) ?h" using assms(1,2) handler_at by (auto simp: pipe_ok_def)
  then have k: "k < length (outlets (streams s))" and g: "got ?h = []"
    using assms(3,4) by (auto simp: handler_ok_def before_header_def)
  then have p: "k < length (pumps s)" "\<exists>q. src_of (outlets (streams s) ! k) = SrcRec q"
    using assms(1) by (auto simp: pipe_ok_def pump_ok_def)
  then have "waiting (flushStalePreFill (src_of (outlets (streams s) ! k))) = []" by (auto simp: source_facts)
  then have o: "waiting (src_of (outlets ?v ! k)) = []" "fed (outlets ?v ! k) = fed (outlets (streams s) ! k)"
      "k < length (outlets ?v)"
    using k assms(4) by (simp_all add: step_drop_stale_def Let_def) (simp_all add: set_src_def)
  have g': "hpc (handlers ?v ! i) = HPlay" "hsrc (handlers ?v ! i) = k" "got (handlers ?v ! i) = []"
      "i < length (handlers ?v)" "since (handlers ?v ! i) = head_pos (outlets ?v ! k)"
    using assms(2,4) g by (simp_all add: step_drop_stale_def Let_def)
  have "pipe_run n as (s\<lparr>streams := ?v\<rparr>) = Some t" using assms(5) v by simp
  from that [OF this pipe_ok_step [OF assms(1) v] p(1)] o g' show ?thesis by (simp add: head_pos_def)
qed

lemma pump_frames:
  assumes "pipe_ok n s" and "k < length (pumps s)"
  shows "concat (map snd (emitted (pumps s ! k))) @ accum (pumps s ! k) = src_bytes (pumps s ! k)
    \<and> list_all (\<lambda>c. length c = 4096) (map snd (emitted (pumps s ! k)))
    \<and> length (accum (pumps s ! k)) < 8192
    \<and> fed (outlets (streams s) ! k) = map snd (filter fst (emitted (pumps s ! k)))
    \<and> is_rec (src_of (outlets (streams s) ! k))"
proof -
  let ?p = "pumps s ! k"
  have "pump_ok n (outlets (streams s) ! k) ?p" using assms by (simp add: pipe_ok_def)
  then obtain q where q: "src_of (outlets (streams s) ! k) = SrcRec q" "framing 0 n (?p\<lparr>rcd := q\<rparr>)" "control (?p\<lparr>rcd := q\<rparr>)"
      "fed (outlets (streams s) ! k) = map snd (filter fst (emitted ?p))"
    by (auto simp: pump_ok_def)
  have c: "chunkSize q = 4096" using q(2) by (simp add: framing_def chunkSize_def defaultChunkSize_def)
  then show ?thesis
    using q by (auto simp: framing_def control_def list.pred_map comp_def split: pump_pc.splits)
qed

lemma rec_rate: "is_rec x \<Longrightarrow> SrcSampleRate x = 22050"
  by (cases x) (simp_all add: RecSampleRate_def SampleRate_def)

text \<open>What was accepted after an earlier state of the same pump.\<close>

lemma accepted_after:
  assumes "emitted q = emitted p @ es"
  shows "drop (length (map snd (filter fst (emitted p)))) (map snd (filter fst (emitted q))) = map snd (filter fst es)"
  by (simp add: assms)

lemma subseq_filter_map: "subseq (map snd (filter fst es)) (map snd es)"
  by (intro subseq_map subseq_filter_left)

section \<open>Properties\<close>

text \<open>The sound of a stream, before or after its header went out.\<close>

lemma wire_prefix:
  assumes "handler_ok xs h" and "SrcSampleRate (src_of (xs ! hsrc h)) = r"
  shows "prefix (on_wire h) (writeWAVHeader r @ concat (map snd (got h)))"
proof (cases "counted h = 0")
  case True
  then obtain m where "sink_of (bw h) = \<lparr>writes = [], room = m\<rparr>" using assms(1) unfolding handler_ok_def by blast
  then show ?thesis by (simp add: on_wire_def sink_bytes_def)
next
  case False
  then have "wire_ok (writeWAVHeader r) h" using assms by (simp add: handler_ok_def)
  from wire_ok_body [OF this refl] show ?thesis by (simp add: stream_of_def)
qed

section \<open>Properties\<close>

text \<open>C1: From the monitor to the wire: whatever is sent on a stream is the WAV header for the
  recorder's rate followed by whole 4096-byte chunks of the bytes read from the monitor, framed
  as the pump framed them, in order, each at most once, and none that was completed before
  the stream attached (at that moment less than two chunks were read but not yet framed).\<close>

theorem pipeline_audio:
  assumes "pipe_reach n s" and "i < length (handlers (streams s))" and "hpc (handlers (streams s) ! i) = HFlush"
    and "k = hsrc (handlers (streams s) ! i)" and "pipe_run n (Stream (Handler i r) # as) s = Some t"
    and "early = concat (map snd (emitted (pumps s ! k)))"
    and "chunks = map snd (drop (length (emitted (pumps s ! k))) (emitted (pumps t ! k)))"
  shows "(\<exists>cs. prefix (on_wire (handlers (streams t) ! i)) (writeWAVHeader 22050 @ concat cs) \<and> subseq cs chunks)
    \<and> src_bytes (pumps t ! k) = early @ concat chunks @ accum (pumps t ! k)
    \<and> list_all (\<lambda>c. length c = 4096) chunks
    \<and> prefix early (src_bytes (pumps s ! k)) \<and> length (src_bytes (pumps s ! k)) < length early + 8192"
proof -
  have ok: "pipe_ok n s" and ok': "pipe_ok n t"
    using pipe_ok_reach [OF assms(1)] pipe_ok_reach [OF pipe_run_reach [OF assms(5,1)]] by auto
  obtain u where u: "pipe_run n as u = Some t" "k < length (pumps s)" "pumps u = pumps s"
      "i < length (handlers (streams u))" "hpc (handlers (streams u) ! i) = HPlay" "hsrc (handlers (streams u) ! i) = k"
      "since (handlers (streams u) ! i) = length (fed (outlets (streams s) ! k))"
    using attach [OF ok assms(2-5)] by metis
  let ?g = "handlers (streams t) ! i"
  have b: "begun (handlers (streams u) ! i) ?g" "i < length (handlers (streams t))"
    using begun_pipe_run [OF u(1,4)] u(5) by auto
  obtain es where es: "emitted (pumps t ! k) = emitted (pumps s ! k) @ es" and k: "k < length (pumps t)"
    using pipe_run_pumps [OF u(1), of k] u(2,3) by (auto simp: pump_le_def prefix_def)
  note F = pump_frames [OF ok u(2)] and G = pump_frames [OF ok' k]
  have h: "handler_ok (outlets (streams t)) ?g" using handler_at ok' b(2) by (auto simp: pipe_ok_def)
  have "subseq (map snd (got ?g)) (map snd (filter fst es))"
    using subseq_handler [OF h] b(1) u(5,6,7) F G accepted_after [OF es] by (auto simp: begun_def)
  then have "subseq (map snd (got ?g)) (map snd es)" using subseq_filter_map subseq_order.trans by blast
  moreover have "prefix (on_wire ?g) (writeWAVHeader 22050 @ concat (map snd (got ?g)))"
    using wire_prefix [OF h] b(1) u(6) rec_rate G by (simp add: begun_def)
  moreover have "src_bytes (pumps t ! k) = early @ concat (map snd es) @ accum (pumps t ! k)"
    using G es assms(6) by (metis append.assoc concat_append map_append)
  moreover have c: "chunks = map snd es" using es assms(7) by simp
  moreover have "list_all (\<lambda>c. length c = 4096) chunks" using G es c by simp
  moreover have "src_bytes (pumps s ! k) = early @ accum (pumps s ! k)" using F assms(6) by simp
  ultimately show ?thesis using F by auto
qed

text \<open>A stream nobody competes with: the chunks it received and those waiting for it are all that was
  accepted since it attached.\<close>

definition sole :: "nat \<Rightarrow> nat \<Rightarrow> stream_sys \<Rightarrow> bool" where
  "sole i k u \<longleftrightarrow>
     i < length (handlers u) \<and> k < length (outlets u) \<and> hsrc (handlers u ! i) = k
     \<and> hpc (handlers u ! i) \<notin> {HStart, HRegister, HFlush}
     \<and> since (handlers u ! i) \<le> length (fed (outlets u ! k))
     \<and> drop (since (handlers u ! i)) (fed (outlets u ! k)) = map snd (got (handlers u ! i)) @ waiting (src_of (outlets u ! k))"

lemma outlet_set_src [simp]:
  "outlets (set_src k y s) ! k = (if k < length (outlets s) then (outlets s ! k)\<lparr>src_of := y\<rparr> else outlets s ! k)"
  by (simp add: set_src_def list_update_beyond not_less)

lemma sole_stream:
  assumes "sole i k u" and "stream_step live_conf a u = Some v" and "stream_own a" and "\<And>j r. a = Handler j r \<Longrightarrow> j = i"
  shows "sole i k v"
  using assms(2)
proof (cases rule: stream_step_cases)
  case (chunk j h r ch x ch' m b)
  then have "j = i" "waiting (src_of (outlets u ! k)) = x # buf ch'"
    using assms(1,4) by (auto simp: sole_def waiting_def try_recv_Some)
  then show ?thesis using assms(1) chunk by (simp add: sole_def source_facts)
next
  case (arrive uri r)
  then show ?thesis using assms(1) by (simp add: sole_def nth_append)
next
  case (disconnect j)
  then show ?thesis using assms(1) by (auto simp: sole_def nth_list_update)
next
  case (play j h r)
  then show ?thesis using assms(1,4) by (simp add: sole_def step_play_def)
next
  case (header j h r)
  then show ?thesis using assms(1,4) by (simp add: sole_def step_header_def Let_def source_facts)
next
  case (finish j h r)
  then show ?thesis using assms(1,4) by (simp add: sole_def)
next
  case (leave j h r)
  then show ?thesis using assms(1,4) by (simp add: sole_def step_leave_def)
next
  case (unregister j h r)
  then show ?thesis using assms(1,4) by (simp add: sole_def step_unregister_def)
next
  case (close j h r)
  then show ?thesis using assms(1,4) by (simp add: sole_def step_close_def source_facts)
qed (use assms(1,3,4) in \<open>auto simp: sole_def\<close>)

lemma sole_pump:
  assumes "sole i k (streams s)" and "pump_step j a s = Some t"
  shows "sole i k (streams t)"
  using assms(2)
proof (cases rule: pump_step_Some)
  case (1 q p')
  have "waiting (SrcRec (rcd p')) = waiting (SrcRec q) @ accepted ((pumps s ! j)\<lparr>rcd := q\<rparr>) p'"
    using pump_effect [OF 1(5,4)] by auto
  then show ?thesis using assms(1) 1(2,3,6) by (cases "j = k") (simp_all add: sole_def)
qed

lemma sole_loop:
  assumes "sole i k (streams s)" and "loop_step n a s = Some t"
  shows "sole i k (streams t)"
proof -
  have "outlets (streams t) ! k = outlets (streams s) ! k \<and> length (outlets (streams s)) \<le> length (outlets (streams t))"
    using assms
    by (auto simp: loop_step_def slot_acts_def stream_step_def nth_append sole_def
        split: if_splits option.splits rl_act.splits rl_pc.splits)
  then show ?thesis using assms(1) loop_handlers [OF assms(2)] by (auto simp: sole_def)
qed

lemma sole_run:
  "pipe_run n as s = Some t \<Longrightarrow> sole i k (streams s) \<Longrightarrow> (\<forall>j r. Stream (Handler j r) \<in> set as \<longrightarrow> j = i) \<Longrightarrow>
    sole i k (streams t)"
proof (induction as arbitrary: s)
  case (Cons a as)
  then obtain u where u: "pipe_step n a s = Some u" "pipe_run n as u = Some t" by (auto split: option.splits)
  have "sole i k (streams u)"
  proof (cases a)
    case (Stream b)
    then obtain v where v: "stream_own b" "stream_step live_conf b (streams s) = Some v" "streams u = v"
      using u(1) by (auto split: if_splits option.splits)
    have "\<And>j r. b = Handler j r \<Longrightarrow> j = i" using Cons.prems(3) Stream by simp
    from sole_stream [OF Cons.prems(2) v(2,1) this] v(3) show ?thesis by simp
  next
    case (Pump j b)
    then show ?thesis using sole_pump [OF Cons.prems(2)] u(1) by simp
  next
    case (Loop b)
    then show ?thesis using sole_loop [OF Cons.prems(2)] u(1) by simp
  qed
  then show ?case using Cons.IH [OF u(2)] Cons.prems(3) by auto
qed simp

text \<open>C2: Nothing is lost for a single listener: while only one request takes steps, nothing was
  dropped at a full channel and its connection holds, every byte read from the monitor and framed
  since it attached is, in order and once, on the wire, held in the batch, waiting in the channel
  or in the pump's accumulator.\<close>

theorem pipeline_lossless:
  assumes "pipe_reach n s" and "i < length (handlers (streams s))" and "hpc (handlers (streams s) ! i) = HFlush"
    and "k = hsrc (handlers (streams s) ! i)" and "pipe_run n (Stream (Handler i r) # as) s = Some t"
    and "\<forall>j r. Stream (Handler j r) \<in> set as \<longrightarrow> j = i"
    and "list_all fst (drop (length (emitted (pumps s ! k))) (emitted (pumps t ! k)))"
    and "h = handlers (streams t) ! i" and "0 < counted h" and "room (sink_of (bw h)) = None"
  shows "on_wire h @ held (bw h) @ concat (waiting (src_of (outlets (streams t) ! k))) @ accum (pumps t ! k) =
    writeWAVHeader 22050 @ drop (length (concat (map snd (emitted (pumps s ! k))))) (src_bytes (pumps t ! k))"
proof -
  have ok: "pipe_ok n s" and ok': "pipe_ok n t"
    using pipe_ok_reach [OF assms(1)] pipe_ok_reach [OF pipe_run_reach [OF assms(5,1)]] by auto
  obtain u where u: "pipe_run n as u = Some t" "k < length (pumps s)" "pumps u = pumps s" "k < length (outlets (streams u))"
      and g: "i < length (handlers (streams u))" "hpc (handlers (streams u) ! i) = HPlay" "hsrc (handlers (streams u) ! i) = k"
        "got (handlers (streams u) ! i) = []" "waiting (src_of (outlets (streams u) ! k)) = []"
        "since (handlers (streams u) ! i) = length (fed (outlets (streams u) ! k))"
        "fed (outlets (streams u) ! k) = fed (outlets (streams s) ! k)"
    by (rule attach [OF ok assms(2-5)])
  have su: "sole i k (streams u)" using u(4) g by (simp add: sole_def)
  have so: "sole i k (streams t)" by (rule sole_run [OF u(1) su assms(6)])
  then have i: "i < length (handlers (streams t))" "hsrc h = k" by (auto simp: sole_def assms(8))
  have b: "since h = length (fed (outlets (streams s) ! k))"
    using begun_pipe_run [OF u(1) g(1)] g(2,6,7) by (simp add: begun_def assms(8))
  obtain es where es: "emitted (pumps t ! k) = emitted (pumps s ! k) @ es" and k: "k < length (pumps t)"
    using pipe_run_pumps [OF u(1), of k] u(2,3) by (auto simp: pump_le_def prefix_def)
  note F = pump_frames [OF ok u(2)] and G = pump_frames [OF ok' k]
  have "map snd (got h) @ waiting (src_of (outlets (streams t) ! k)) = map snd (filter fst es)"
    using so b F G accepted_after [OF es] by (simp add: sole_def assms(8))
  also have "filter fst es = es" using assms(7) es by (simp add: list_all_iff)
  finally have m: "concat (map snd (got h)) @ concat (waiting (src_of (outlets (streams t) ! k))) = concat (map snd es)"
    by (metis concat_append)
  have "handler_ok (outlets (streams t)) h" using handler_at ok' i(1) assms(8) by (auto simp: pipe_ok_def)
  then have "flowing (writeWAVHeader 22050) h"
    using assms(9,10) i(2) rec_rate G by (simp add: handler_ok_def wire_ok_def)
  then have "on_wire h @ held (bw h) = writeWAVHeader 22050 @ concat (map snd (got h))"
    by (simp add: flowing_def stream_of_def)
  then have w: "on_wire h @ held (bw h) @ x = writeWAVHeader 22050 @ concat (map snd (got h)) @ x" for x
    by (metis append.assoc)
  have "src_bytes (pumps t ! k) = concat (map snd (emitted (pumps s ! k))) @ concat (map snd es) @ accum (pumps t ! k)"
    using G es by (metis append.assoc concat_append map_append)
  then have "drop (length (concat (map snd (emitted (pumps s ! k))))) (src_bytes (pumps t ! k)) = concat (map snd es) @ accum (pumps t ! k)"
    by simp
  then show ?thesis by (simp only: w m [symmetric] append.assoc)
qed

text \<open>A request is only ever given the newest recorder: the slot the streams read holds a recorder
  exactly while the recorder loop watches one, and that is the last one opened; every other
  recorder has been stopped and its stream closed.\<close>

theorem pipeline_slot:
  assumes "pipe_reach n s" and "k < length (outlets (streams s))"
  shows "slot (streams s) = (case rlpc (loop s) of RLWatch j \<Rightarrow> Some j | _ \<Rightarrow> None)
    \<and> (if slot (streams s) = Some k then Suc k = length (outlets (streams s)) else halted (rl_attempts (loop s) ! k))
    \<and> is_rec (src_of (outlets (streams s) ! k))"
proof -
  note p = pipe_ok_reach [OF assms(1)]
  have k: "k < length (rl_attempts (loop s))" "k < length (pumps s)" using p assms(2) by (auto simp: pipe_ok_def)
  have e: "slot (streams s) = rslot (loop s)" "length (outlets (streams s)) = length (rl_attempts (loop s))"
    using p by (auto simp: pipe_ok_def)
  have r: "rslot (loop s) = (case rlpc (loop s) of RLWatch j \<Rightarrow> Some j | _ \<Rightarrow> None)"
    using attempts_reach [of n "loop s"] p by (simp add: attempts_ok_def)
  then have q: "rslot (loop s) = Some k \<longleftrightarrow> rlpc (loop s) = RLWatch k" by (cases "rlpc (loop s)") auto
  have "is_rec (src_of (outlets (streams s) ! k))" using pump_frames [of n s k] p k by simp
  then show ?thesis
    using attempt_at [of n "loop s" k] watched_at [of n "loop s" k] attempts_reach [of n "loop s"] p k q r e
    by (auto simp: watched_ok_def split: if_splits)
qed

section \<open>A concrete run\<close>

text \<open>The daemon comes up, a recorder is opened, one chunk is recorded before the request attaches and
  one after it.\<close>

definition tune_in :: "pipe_act list" where
  "tune_in =
    [Loop (DaemonReady True), Loop RLReady, Loop RLBegin, Loop (RLOpened True),
     Pump 0 ActSelect, Pump 0 (ActRead (replicate 4096 7) None), Pump 0 ActEmit, Pump 0 ActEmit,
     Stream (Arrive demo_uri None), Stream (Handler 0 TakeCtx), Stream (Handler 0 TakeCtx)]"

definition hear :: "pipe_act list" where
  "hear =
    [Stream (Handler 0 TakeCtx), Stream (Handler 0 TakeCtx),
     Pump 0 ActSelect, Pump 0 (ActRead (replicate 4096 1) None), Pump 0 ActEmit, Stream (Handler 0 TakeChunk)]"

lemmas pipe_eval =
  loop_step_def pump_step_def pump_at_def put_pump_def pump_ended_def slot_acts_def rl_step_def runRecorder_step_def
  watchdog_step_def rl_env_def open_attempt_def slot_set_def step_emit_def step_select_def step_read_def step_start_def
  init_sys_def accepted_def chunkSize_def defaultChunkSize_def rl_init_def pipe_init_def

lemma tune_in_run:
  "\<exists>s. pipe_run 8 tune_in pipe_init = Some s \<and> length (handlers (streams s)) = 1
    \<and> hpc (handlers (streams s) ! 0) = HFlush \<and> hsrc (handlers (streams s) ! 0) = 0
    \<and> emitted (pumps s ! 0) = [(True, replicate 4096 7)] \<and> slot (streams s) = Some 0 \<and> length (outlets (streams s)) = 1
    \<and> (\<exists>t. pipe_run 8 (Stream (Handler 0 TakeCtx) # hear) s = Some t
         \<and> emitted (pumps t ! 0) = [(True, replicate 4096 7), (True, replicate 4096 1)] \<and> accum (pumps t ! 0) = []
         \<and> src_bytes (pumps t ! 0) = replicate 4096 7 @ replicate 4096 1
         \<and> 0 < counted (handlers (streams t) ! 0) \<and> room (sink_of (bw (handlers (streams t) ! 0))) = None
         \<and> waiting (src_of (outlets (streams t) ! 0)) = [])"
  by (simp add: tune_in_def hear_def pipe_eval stream_eval live_conf_def bw_write_small NewWriterSize_def
      avail_def streamFlushThreshold_def sink_write_def)

lemma pipeline_audio_witness:
  "\<exists>t. pipe_reach 8 t \<and> src_bytes (pumps t ! 0) = replicate 4096 7 @ replicate 4096 1
    \<and> (\<exists>cs. prefix (on_wire (handlers (streams t) ! 0)) (writeWAVHeader 22050 @ concat cs) \<and> subseq cs [replicate 4096 1])"
proof -
  obtain s t where s: "pipe_run 8 tune_in pipe_init = Some s" "length (handlers (streams s)) = 1"
      "hpc (handlers (streams s) ! 0) = HFlush" "hsrc (handlers (streams s) ! 0) = 0"
      "emitted (pumps s ! 0) = [(True, replicate 4096 7)]"
    and t: "pipe_run 8 (Stream (Handler 0 TakeCtx) # hear) s = Some t"
      "emitted (pumps t ! 0) = [(True, replicate 4096 7), (True, replicate 4096 1)]"
      "src_bytes (pumps t ! 0) = replicate 4096 7 @ replicate 4096 1"
    using tune_in_run by blast
  have r: "pipe_reach 8 s" by (rule pipe_run_reach [OF s(1) pipe_zero])
  have "0 < length (handlers (streams s))" using s(2) by simp
  from pipeline_audio [OF r this s(3) refl t(1) refl refl] s(4,5) t pipe_run_reach [OF t(1) r] show ?thesis by auto
qed

lemma pipeline_lossless_witness:
  "\<exists>t. pipe_reach 8 t \<and> on_wire (handlers (streams t) ! 0) @ held (bw (handlers (streams t) ! 0)) =
    writeWAVHeader 22050 @ replicate 4096 1"
proof -
  obtain s t where s: "pipe_run 8 tune_in pipe_init = Some s" "length (handlers (streams s)) = 1"
      "hpc (handlers (streams s) ! 0) = HFlush" "hsrc (handlers (streams s) ! 0) = 0"
      "emitted (pumps s ! 0) = [(True, replicate 4096 7)]"
    and t: "pipe_run 8 (Stream (Handler 0 TakeCtx) # hear) s = Some t"
      "emitted (pumps t ! 0) = [(True, replicate 4096 7), (True, replicate 4096 1)]"
      "src_bytes (pumps t ! 0) = replicate 4096 7 @ replicate 4096 1" "accum (pumps t ! 0) = []"
      "waiting (src_of (outlets (streams t) ! 0)) = []"
      "0 < counted (handlers (streams t) ! 0)" "room (sink_of (bw (handlers (streams t) ! 0))) = None"
    using tune_in_run by blast
  have r: "pipe_reach 8 s" by (rule pipe_run_reach [OF s(1) pipe_zero])
  have i: "0 < length (handlers (streams s))" using s(2) by simp
  have sole: "\<forall>j r. Stream (Handler j r) \<in> set hear \<longrightarrow> j = 0" by (simp add: hear_def)
  have kept_all: "list_all fst (drop (length (emitted (pumps s ! 0))) (emitted (pumps t ! 0)))" using s(5) t(2) by simp
  from pipeline_lossless [OF r i s(3) s(4) [symmetric] t(1) sole kept_all refl t(6,7)] s(5) t(3,4,5)
  have "on_wire (handlers (streams t) ! 0) @ held (bw (handlers (streams t) ! 0)) = writeWAVHeader 22050 @ replicate 4096 1"
    by simp
  then show ?thesis using pipe_run_reach [OF t(1) r] by blast
qed

lemma pipeline_slot_witness:
  "\<exists>s. pipe_reach 8 s \<and> slot (streams s) = Some 0 \<and> rlpc (loop s) = RLWatch 0"
proof -
  obtain s where s: "pipe_run 8 tune_in pipe_init = Some s" "slot (streams s) = Some 0" "length (outlets (streams s)) = 1"
    using tune_in_run by blast
  have r: "pipe_reach 8 s" by (rule pipe_run_reach [OF s(1) pipe_zero])
  have "0 < length (outlets (streams s))" using s(3) by simp
  from pipeline_slot [OF r this] s(2) r show ?thesis by (auto split: rl_pc.splits)
qed

end
